theory Spec2Isabelle
  imports Complex_Main "HOL-Library.AList"
begin

section \<open>Python values\<close>

text \<open>
  The exceptions the code can raise.  \<open>ClosedEndFundError\<close> carries which of the five
  messages of the constructor was raised; the other three are Python's built-in
  exceptions.
\<close>

datatype violation =
    DeploymentBeforeFundStart
  | FundStartNotEndOfMonth
  | DeploymentStartNotEndOfMonth
  | NotWholeNumberOfDeployments
  | CommittedCapitalNotPositive

datatype error =
    ClosedEndFundError violation
  | ZeroDivisionError
  | ValueError
  | TypeError

text \<open>
  Running a fallible function over a list, left to right, stopping at the first error:
  a list comprehension whose element expression can raise.
\<close>

fun traverse :: "('a \<Rightarrow> error + 'b) \<Rightarrow> 'a list \<Rightarrow> error + 'b list" where
  "traverse f [] = Inr []"
| "traverse f (x # xs) =
     (case f x of
        Inl e \<Rightarrow> Inl e
      | Inr y \<Rightarrow> (case traverse f xs of Inl e \<Rightarrow> Inl e | Inr ys \<Rightarrow> Inr (y # ys)))"

text \<open>\<open>range(lo, hi)\<close>: empty when \<open>hi \<le> lo\<close>.\<close>

definition py_range :: "int \<Rightarrow> int \<Rightarrow> int list" where
  "py_range lo hi = map (\<lambda>k. lo + int k) [0..<nat (hi - lo)]"

text \<open>
  A \<open>for\<close> loop whose body updates the local state and can raise: the first exception
  ends the loop and is the outcome.
\<close>

fun for_each :: "('a \<Rightarrow> 's \<Rightarrow> error + 's) \<Rightarrow> 'a list \<Rightarrow> 's \<Rightarrow> error + 's" where
  "for_each body [] s = Inr s"
| "for_each body (x # xs) s =
     (case body x s of Inl e \<Rightarrow> Inl e | Inr s' \<Rightarrow> for_each body xs s')"

text \<open>
  A \<open>dict\<close> keeps its keys in insertion order; \<open>d.update({k: v})\<close> overwrites the value of
  a key that is present and appends a new key otherwise, which is \<open>AList.update\<close>.
  \<open>d.get(k, default)\<close> is \<open>dict_get\<close>.
\<close>

type_synonym ('k, 'v) dict = "('k \<times> 'v) list"

definition dict_get :: "('k, 'v) dict \<Rightarrow> 'k \<Rightarrow> 'v \<Rightarrow> 'v" where
  "dict_get d k dflt = (case map_of d k of None \<Rightarrow> dflt | Some v \<Rightarrow> v)"

text \<open>
  Amounts and rates are Python floats, modelled as exact real numbers.  Two things make a
  number of this program more than a Python float.  \<open>x ** (1/12)\<close> with a negative base is
  a Python \<open>complex\<close>, the principal twelfth root.  \<open>numpy_financial.fv\<close> returns a numpy
  scalar, a \<open>numpy.float64\<close> or, for a complex rate, a \<open>numpy.complex128\<close>.  So a number
  is one of four kinds, each with its value.  Rounding, overflow and the infinities of
  floating-point arithmetic are not modelled.
\<close>

datatype pynum = PyFloat real | PyComplex complex | NpFloat64 real | NpComplex128 complex

fun cval :: "pynum \<Rightarrow> complex" where
  "cval (PyFloat x) = of_real x"
| "cval (PyComplex z) = z"
| "cval (NpFloat64 x) = of_real x"
| "cval (NpComplex128 z) = z"

fun is_numpy :: "pynum \<Rightarrow> bool" where
  "is_numpy (PyFloat x) = False"
| "is_numpy (PyComplex z) = False"
| "is_numpy (NpFloat64 x) = True"
| "is_numpy (NpComplex128 z) = True"

fun is_complex :: "pynum \<Rightarrow> bool" where
  "is_complex (PyFloat x) = False"
| "is_complex (PyComplex z) = True"
| "is_complex (NpFloat64 x) = False"
| "is_complex (NpComplex128 z) = True"

text \<open>
  Arithmetic (\<open>+\<close>, \<open>-\<close>, \<open>*\<close>, \<open>/\<close>): the result is a numpy scalar as soon as one operand
  is one, and complex as soon as one operand is complex.  The only division of numbers of
  this kind in the program is by the literal \<open>0.5\<close>.
\<close>

definition mk_num :: "bool \<Rightarrow> bool \<Rightarrow> complex \<Rightarrow> pynum" where
  "mk_num numpy cplx z =
     (if numpy then (if cplx then NpComplex128 z else NpFloat64 (Re z))
      else (if cplx then PyComplex z else PyFloat (Re z)))"

definition binop :: "(complex \<Rightarrow> complex \<Rightarrow> complex) \<Rightarrow> pynum \<Rightarrow> pynum \<Rightarrow> pynum" where
  "binop f a b =
     mk_num (is_numpy a \<or> is_numpy b) (is_complex a \<or> is_complex b) (f (cval a) (cval b))"

definition py_add :: "pynum \<Rightarrow> pynum \<Rightarrow> pynum" where
  "py_add = binop (+)"

definition py_sub :: "pynum \<Rightarrow> pynum \<Rightarrow> pynum" where
  "py_sub = binop (-)"

definition py_mul :: "pynum \<Rightarrow> pynum \<Rightarrow> pynum" where
  "py_mul = binop (*)"

definition py_div :: "pynum \<Rightarrow> pynum \<Rightarrow> pynum" where
  "py_div = binop (/)"

text \<open>\<open>a == b\<close> on numbers compares the values, whatever the kinds.\<close>

definition py_eq :: "pynum \<Rightarrow> pynum \<Rightarrow> bool" where
  "py_eq a b = (cval a = cval b)"

text \<open>
  Ordering.  Between two Python numbers \<open><\<close> raises TypeError as soon as one of them is
  complex.  When one operand is a numpy scalar the comparison is numpy's, which orders
  complex numbers lexicographically, by the real part and then by the imaginary part.
  \<open>a > b\<close> is \<open>b < a\<close>, and \<open>min(a, b)\<close> is \<open>b\<close> if \<open>b < a\<close> and \<open>a\<close> otherwise.
\<close>

definition lex_less :: "complex \<Rightarrow> complex \<Rightarrow> bool" where
  "lex_less z w = (Re z < Re w \<or> (Re z = Re w \<and> Im z < Im w))"

definition py_lt :: "pynum \<Rightarrow> pynum \<Rightarrow> error + bool" where
  "py_lt a b =
     (if \<not> is_numpy a \<and> \<not> is_numpy b \<and> (is_complex a \<or> is_complex b) then Inl TypeError
      else Inr (lex_less (cval a) (cval b)))"

definition py_gt :: "pynum \<Rightarrow> pynum \<Rightarrow> error + bool" where
  "py_gt a b = py_lt b a"

definition py_min :: "pynum \<Rightarrow> pynum \<Rightarrow> error + pynum" where
  "py_min a b = (case py_lt b a of Inl e \<Rightarrow> Inl e | Inr lt \<Rightarrow> Inr (if lt then b else a))"

text \<open>
  \<open>x ** (1/12)\<close> on a float \<open>x\<close>: a float when \<open>x\<close> is not negative, and otherwise the
  complex number of modulus \<open>|x| ** (1/12)\<close> and argument \<open>pi / 12\<close>.
\<close>

definition twelfth_root :: "real \<Rightarrow> pynum" where
  "twelfth_root x =
     (if x < 0 then PyComplex (of_real ((- x) powr (1 / 12)) * cis (pi / 12))
      else PyFloat (x powr (1 / 12)))"

text \<open>\<open>int(a / b)\<close> on integers: the quotient truncated towards zero.\<close>

definition int_of_quotient :: "int \<Rightarrow> int \<Rightarrow> int" where
  "int_of_quotient a b = sgn a * sgn b * (\<bar>a\<bar> div \<bar>b\<bar>)"

section \<open>datetime.date and calendar.monthrange\<close>

text \<open>
  A \<open>datetime.date\<close> has a year between MINYEAR = 1 and MAXYEAR = 9999, a month between
  1 and 12 and a day between 1 and the number of days of that month.  The constructor
  \<open>datetime.date(y, m, d)\<close> raises ValueError on anything else.
\<close>

record date =
  year :: int
  month :: int
  day :: int

definition isleap :: "int \<Rightarrow> bool" where
  "isleap y = (y mod 4 = 0 \<and> (y mod 100 \<noteq> 0 \<or> y mod 400 = 0))"

definition mdays :: "int list" where
  "mdays = [0, 31, 28, 31, 30, 31, 30, 31, 31, 30, 31, 30, 31]"

text \<open>
  \<open>calendar.monthrange(y, m)[1]\<close>, the number of days of month \<open>m\<close> of year \<open>y\<close>.  It is
  called with \<open>1 \<le> m \<le> 12\<close> only (lemma \<open>decode_month_range\<close> below), and accepts every
  year.
\<close>

definition monthrange :: "int \<Rightarrow> int \<Rightarrow> int" where
  "monthrange y m = mdays ! nat m + (if m = 2 \<and> isleap y then 1 else 0)"

definition valid_ymd :: "int \<Rightarrow> int \<Rightarrow> int \<Rightarrow> bool" where
  "valid_ymd y m d =
     (1 \<le> y \<and> y \<le> 9999 \<and> 1 \<le> m \<and> m \<le> 12 \<and> 1 \<le> d \<and> d \<le> monthrange y m)"

definition valid_date :: "date \<Rightarrow> bool" where
  "valid_date dt = valid_ymd (year dt) (month dt) (day dt)"

definition datetime_date :: "int \<Rightarrow> int \<Rightarrow> int \<Rightarrow> error + date" where
  "datetime_date y m d =
     (if valid_ymd y m d then Inr \<lparr>year = y, month = m, day = d\<rparr> else Inl ValueError)"

text \<open>Comparison of dates: by year, then month, then day.\<close>

definition date_less :: "date \<Rightarrow> date \<Rightarrow> bool" where
  "date_less a b =
     (year a < year b \<or> (year a = year b \<and>
        (month a < month b \<or> (month a = month b \<and> day a < day b))))"

definition date_le :: "date \<Rightarrow> date \<Rightarrow> bool" where
  "date_le a b = (date_less a b \<or> a = b)"

section \<open>date\_utils.py\<close>

definition year_month_num :: "date \<Rightarrow> int" where
  "year_month_num dt = year dt * 12 + month dt"

definition end_of_month_from_int :: "int \<Rightarrow> error + date" where
  "end_of_month_from_int year_month_int =
     (let (eom_year, eom_month) =
            (if year_month_int mod 12 \<noteq> 0
             then (year_month_int div 12, year_month_int mod 12)
             else (year_month_int div 12 - 1, 12));
          eom_day = monthrange eom_year eom_month
      in datetime_date eom_year eom_month eom_day)"

definition end_of_month_from_date :: "date \<Rightarrow> error + date" where
  "end_of_month_from_date dt = end_of_month_from_int (year_month_num dt)"

definition add_n_months :: "date \<Rightarrow> int \<Rightarrow> bool \<Rightarrow> error + date" where
  "add_n_months start_date num_months end_of_month =
     (let return_date_year_month_int = year_month_num start_date + num_months;
          (return_date_year, return_date_month) =
            (if return_date_year_month_int mod 12 \<noteq> 0
             then (return_date_year_month_int div 12, return_date_year_month_int mod 12)
             else (return_date_year_month_int div 12 - 1, 12));
          return_date_day = min (day start_date) (monthrange return_date_year return_date_month)
      in case datetime_date return_date_year return_date_month return_date_day of
           Inl e \<Rightarrow> Inl e
         | Inr return_date \<Rightarrow>
             if end_of_month then end_of_month_from_date return_date else Inr return_date)"

definition number_of_months_diff :: "date \<Rightarrow> date \<Rightarrow> int" where
  "number_of_months_diff start_date end_date = year_month_num end_date - year_month_num start_date"

definition generate_monthly_date_series :: "date \<Rightarrow> date \<Rightarrow> error + date list" where
  "generate_monthly_date_series start_date end_date =
     (let month_diff = number_of_months_diff start_date end_date
      in traverse (\<lambda>diff. end_of_month_from_int (year_month_num start_date + diff))
           (py_range 0 (month_diff + 1)))"

definition days_in_month :: "date \<Rightarrow> int" where
  "days_in_month dt = monthrange (year dt) (month dt)"

text \<open>
  \<open>date.toordinal()\<close>, the day number in the proleptic Gregorian calendar; the difference
  of two dates is the difference of their ordinals.
\<close>

definition days_before_year :: "int \<Rightarrow> int" where
  "days_before_year y = (y - 1) * 365 + (y - 1) div 4 - (y - 1) div 100 + (y - 1) div 400"

definition days_before_month :: "int \<Rightarrow> int \<Rightarrow> int" where
  "days_before_month y m = (\<Sum>k \<leftarrow> [1..<nat m]. monthrange y (int k))"

definition toordinal :: "date \<Rightarrow> int" where
  "toordinal dt = days_before_year (year dt) + days_before_month (year dt) (month dt) + day dt"

definition days_in_year :: "date \<Rightarrow> error + int" where
  "days_in_year dt =
     (case datetime_date (year dt + 1) 1 1 of
        Inl e \<Rightarrow> Inl e
      | Inr next_january \<Rightarrow>
          (case datetime_date (year dt) 1 1 of
             Inl e \<Rightarrow> Inl e
           | Inr this_january \<Rightarrow> Inr (toordinal next_january - toordinal this_january)))"


section \<open>fund\_models.py\<close>

text \<open>
  The fields of a \<open>ClosedEndFund\<close>; the constructor takes its arguments as the same record.
\<close>

record closed_end_fund =
  fund_name :: string
  fund_start_date :: date
  deployment_start_date :: date
  annual_effective_irr :: real
  committed_capital :: real
  annual_mgmt_fee_rate :: real
  carry_percent :: real
  annual_effective_irr_hurdle :: real
  number_of_months_of_deployment :: int
  number_of_months_in_between_deployments :: int
  length_of_deployment_in_months :: int
  carry_catch_up :: bool

text \<open>
  \<open>ClosedEndFund.__init__\<close>.  The five \<open>raise ClosedEndFundError\<close> statements in their
  order; \<open>%\<close> raises ZeroDivisionError on a zero divisor before the fourth comparison is
  made.
\<close>

definition ClosedEndFund_init :: "closed_end_fund \<Rightarrow> error + closed_end_fund" where
  "ClosedEndFund_init args =
     (if date_less (deployment_start_date args) (fund_start_date args)
      then Inl (ClosedEndFundError DeploymentBeforeFundStart)
      else case end_of_month_from_date (fund_start_date args) of
        Inl e \<Rightarrow> Inl e
      | Inr fund_eom \<Rightarrow>
      if fund_eom \<noteq> fund_start_date args
      then Inl (ClosedEndFundError FundStartNotEndOfMonth)
      else case end_of_month_from_date (deployment_start_date args) of
        Inl e \<Rightarrow> Inl e
      | Inr deployment_eom \<Rightarrow>
      if deployment_eom \<noteq> deployment_start_date args
      then Inl (ClosedEndFundError DeploymentStartNotEndOfMonth)
      else if number_of_months_in_between_deployments args = 0
      then Inl ZeroDivisionError
      else if number_of_months_of_deployment args
                mod number_of_months_in_between_deployments args \<noteq> 0
      then Inl (ClosedEndFundError NotWholeNumberOfDeployments)
      else if committed_capital args \<le> 0
      then Inl (ClosedEndFundError CommittedCapitalNotPositive)
      else case end_of_month_from_date (fund_start_date args) of
        Inl e \<Rightarrow> Inl e
      | Inr fund_start \<Rightarrow>
      (case end_of_month_from_date (deployment_start_date args) of
        Inl e \<Rightarrow> Inl e
      | Inr deployment_start \<Rightarrow>
          Inr (args\<lparr>fund_start_date := fund_start, deployment_start_date := deployment_start\<rparr>)))"

definition irr_per_month :: "closed_end_fund \<Rightarrow> pynum" where
  "irr_per_month self = py_sub (twelfth_root (1 + annual_effective_irr self)) (PyFloat 1)"

definition irr_hurdle_per_month :: "closed_end_fund \<Rightarrow> pynum" where
  "irr_hurdle_per_month self =
     py_sub (twelfth_root (1 + annual_effective_irr_hurdle self)) (PyFloat 1)"

definition generate_deployments :: "closed_end_fund \<Rightarrow> error + (date, real) dict" where
  "generate_deployments self =
     (if number_of_months_in_between_deployments self = 0 then Inl ZeroDivisionError
      else
        let number_of_deployments =
              int_of_quotient (number_of_months_of_deployment self)
                (number_of_months_in_between_deployments self)
        in if number_of_deployments = 0 then Inl ZeroDivisionError
           else
             let amount_per_deployment = committed_capital self / of_int number_of_deployments
             in for_each
                  (\<lambda>num deployments.
                     case add_n_months (deployment_start_date self)
                            (num * number_of_months_in_between_deployments self) True of
                       Inl e \<Rightarrow> Inl e
                     | Inr dt \<Rightarrow> Inr (AList.update dt amount_per_deployment deployments))
                  (py_range 0 number_of_deployments) [])"

text \<open>
  \<open>numpy_financial.fv(rate, nper, pmt=0, pv, when='end')\<close> is a library function: with no
  periodic payment the future value is \<open>-(pv * (1 + rate) ** nper)\<close>, computed on numpy
  arrays, so that the result is a numpy scalar, complex when the rate is.
\<close>

definition npf_fv :: "pynum \<Rightarrow> int \<Rightarrow> real \<Rightarrow> pynum" where
  "npf_fv rate nper pv =
     (if is_complex rate then NpComplex128 (- (of_real pv * (1 + cval rate) powi nper))
      else NpFloat64 (- (pv * (1 + Re (cval rate)) powi nper)))"

definition generate_proceeds :: "closed_end_fund \<Rightarrow> error + (date, pynum) dict" where
  "generate_proceeds self =
     (case generate_deployments self of
        Inl e \<Rightarrow> Inl e
      | Inr deployments \<Rightarrow>
          for_each
            (\<lambda>(dt, val) proceeds.
               let amount = npf_fv (irr_per_month self) (length_of_deployment_in_months self) (- val)
               in case add_n_months dt (length_of_deployment_in_months self) True of
                    Inl e \<Rightarrow> Inl e
                  | Inr key \<Rightarrow> Inr (AList.update key amount proceeds))
            deployments [])"

definition generate_capital_returns :: "closed_end_fund \<Rightarrow> error + (date, real) dict" where
  "generate_capital_returns self =
     (case generate_deployments self of
        Inl e \<Rightarrow> Inl e
      | Inr deployments \<Rightarrow>
          for_each
            (\<lambda>(dt, val) capital_returns.
               case add_n_months dt (length_of_deployment_in_months self) True of
                 Inl e \<Rightarrow> Inl e
               | Inr key \<Rightarrow> Inr (AList.update key val capital_returns))
            deployments [])"

text \<open>
  \<open>capital_returns.get(date)\<close> has no default: on a missing key it is \<open>None\<close>, and the
  subtraction raises TypeError.
\<close>

definition generate_profits :: "closed_end_fund \<Rightarrow> error + (date, pynum) dict" where
  "generate_profits self =
     (case generate_capital_returns self of
        Inl e \<Rightarrow> Inl e
      | Inr capital_returns \<Rightarrow>
          (case generate_proceeds self of
             Inl e \<Rightarrow> Inl e
           | Inr proceeds \<Rightarrow>
               for_each
                 (\<lambda>(dt, val) profits.
                    case map_of capital_returns dt of
                      None \<Rightarrow> Inl TypeError
                    | Some capital_return \<Rightarrow>
                        Inr (AList.update dt (py_sub val (PyFloat capital_return)) profits))
                 proceeds []))"

text \<open>\<open>max\<close> of a sequence of dates: ValueError when it is empty, the first greatest one otherwise.\<close>

definition py_max :: "date list \<Rightarrow> error + date" where
  "py_max ds =
     (case ds of
        [] \<Rightarrow> Inl ValueError
      | d # rest \<Rightarrow> Inr (foldl (\<lambda>best x. if date_less best x then x else best) d rest))"

definition monthly_date_series :: "closed_end_fund \<Rightarrow> error + date list" where
  "monthly_date_series self =
     (case generate_capital_returns self of
        Inl e \<Rightarrow> Inl e
      | Inr capital_returns \<Rightarrow>
          (case py_max (map fst capital_returns) of
             Inl e \<Rightarrow> Inl e
           | Inr last_capital_return \<Rightarrow>
               generate_monthly_date_series (fund_start_date self) last_capital_return))"

text \<open>The eleven schedules of \<open>generate_proceeds_allocations_as_dict\<close>.\<close>

record schedules =
  lp_preferred_opening :: "(date, pynum) dict"
  lp_preferred_irr_growth :: "(date, pynum) dict"
  lp_preferred_payments :: "(date, pynum) dict"
  lp_preferred_closing :: "(date, pynum) dict"
  catch_up_opening :: "(date, pynum) dict"
  catch_up_accruals :: "(date, pynum) dict"
  catch_up_payments_gp_share :: "(date, pynum) dict"
  catch_up_payments_lp_share :: "(date, pynum) dict"
  catch_up_closing :: "(date, pynum) dict"
  post_catch_up_payments_gp_share :: "(date, pynum) dict"
  post_catch_up_payments_lp_share :: "(date, pynum) dict"

definition empty_schedules :: schedules where
  "empty_schedules =
     \<lparr>lp_preferred_opening = [], lp_preferred_irr_growth = [], lp_preferred_payments = [],
      lp_preferred_closing = [], catch_up_opening = [], catch_up_accruals = [],
      catch_up_payments_gp_share = [], catch_up_payments_lp_share = [], catch_up_closing = [],
      post_catch_up_payments_gp_share = [], post_catch_up_payments_lp_share = []\<rparr>"

text \<open>
  The body of the loop over the monthly date series (lines 210 to 270).  The exceptions, in
  the order the statements run: \<open>add_n_months(date, -1)\<close> can raise ValueError; the two
  \<open>min\<close> and the two \<open>>\<close> raise TypeError when they compare a Python complex number with a
  Python number; the catch-up fraction divides by \<open>0.5 - carry_percent\<close>.  The defaults
  \<open>0\<close> of \<open>get\<close>, the values \<open>0\<close> written by \<open>update\<close> and the deployment are Python
  numbers; \<open>carry_catch_up\<close> is a \<open>bool\<close>, 1 or 0 as a factor.
\<close>

definition allocation_step ::
  "closed_end_fund \<Rightarrow> (date, real) dict \<Rightarrow> (date, pynum) dict \<Rightarrow> date \<Rightarrow> schedules
     \<Rightarrow> error + schedules" where
  "allocation_step self deployments proceeds dt s =
     (let proceed = dict_get proceeds dt (PyFloat 0)
      in case add_n_months dt (- 1) True of
        Inl e \<Rightarrow> Inl e
      | Inr prior \<Rightarrow>
      let lp_preferred_opening_balance = dict_get (lp_preferred_closing s) prior (PyFloat 0);
          lp_preferred_irr_growth_for_month =
            py_mul lp_preferred_opening_balance (irr_hurdle_per_month self);
          deployment = PyFloat (dict_get deployments dt 0)
      in case py_min proceed
                (py_add (py_add lp_preferred_opening_balance lp_preferred_irr_growth_for_month)
                   deployment) of
        Inl e \<Rightarrow> Inl e
      | Inr lp_preferred_payment \<Rightarrow>
      let catch_up_opening_balance = dict_get (catch_up_closing s) prior (PyFloat 0);
          s = s\<lparr>lp_preferred_opening :=
                   AList.update dt lp_preferred_opening_balance (lp_preferred_opening s),
                 lp_preferred_irr_growth :=
                   AList.update dt lp_preferred_irr_growth_for_month (lp_preferred_irr_growth s),
                 lp_preferred_payments :=
                   AList.update dt lp_preferred_payment (lp_preferred_payments s),
                 lp_preferred_closing :=
                   AList.update dt
                     (py_sub
                        (py_add
                           (py_add lp_preferred_opening_balance lp_preferred_irr_growth_for_month)
                           deployment)
                        lp_preferred_payment)
                     (lp_preferred_closing s),
                 catch_up_opening :=
                   AList.update dt catch_up_opening_balance (catch_up_opening s)\<rparr>
      in if 0.5 - carry_percent self = 0 then Inl ZeroDivisionError
         else
           let catch_up_accrual =
                 py_mul
                   (py_mul lp_preferred_irr_growth_for_month
                      (PyFloat (carry_percent self / (0.5 - carry_percent self) * 0.5)))
                   (PyFloat (if carry_catch_up self then 1 else 0));
               s = s\<lparr>catch_up_accruals := AList.update dt catch_up_accrual (catch_up_accruals s)\<rparr>
           in case py_gt proceed lp_preferred_payment of
                Inl e \<Rightarrow> Inl e
              | Inr surplus \<Rightarrow>
              if surplus
              then
                case py_min (py_div (py_add catch_up_opening_balance catch_up_accrual) (PyFloat 0.5))
                       (py_sub proceed lp_preferred_payment) of
                  Inl e \<Rightarrow> Inl e
                | Inr catch_up_payment \<Rightarrow>
                let catch_up_payment_gp_share = py_mul catch_up_payment (PyFloat 0.5);
                    catch_up_payment_lp_share = py_mul catch_up_payment (PyFloat 0.5);
                    s = s\<lparr>catch_up_payments_gp_share :=
                             AList.update dt catch_up_payment_gp_share (catch_up_payments_gp_share s),
                           catch_up_payments_lp_share :=
                             AList.update dt catch_up_payment_lp_share (catch_up_payments_lp_share s),
                           catch_up_closing :=
                             AList.update dt
                               (py_sub (py_add catch_up_opening_balance catch_up_accrual)
                                  catch_up_payment_gp_share)
                               (catch_up_closing s)\<rparr>
                in case py_gt proceed (py_add lp_preferred_payment catch_up_payment) of
                     Inl e \<Rightarrow> Inl e
                   | Inr remainder \<Rightarrow>
                   if remainder
                   then
                     let post_catch_up_payment =
                           py_sub (py_sub proceed lp_preferred_payment) catch_up_payment;
                         post_catch_up_payment_lp_share =
                           py_mul post_catch_up_payment (PyFloat (1 - carry_percent self));
                         post_catch_up_payment_gp_share =
                           py_mul post_catch_up_payment (PyFloat (carry_percent self))
                     in Inr (s\<lparr>post_catch_up_payments_gp_share :=
                                  AList.update dt post_catch_up_payment_gp_share
                                    (post_catch_up_payments_gp_share s),
                                post_catch_up_payments_lp_share :=
                                  AList.update dt post_catch_up_payment_lp_share
                                    (post_catch_up_payments_lp_share s)\<rparr>)
                   else
                     Inr (s\<lparr>post_catch_up_payments_gp_share :=
                               AList.update dt (PyFloat 0) (post_catch_up_payments_gp_share s),
                             post_catch_up_payments_lp_share :=
                               AList.update dt (PyFloat 0) (post_catch_up_payments_lp_share s)\<rparr>)
              else
                Inr (s\<lparr>catch_up_closing :=
                          AList.update dt (py_add catch_up_opening_balance catch_up_accrual)
                            (catch_up_closing s),
                        catch_up_payments_gp_share :=
                          AList.update dt (PyFloat 0) (catch_up_payments_gp_share s),
                        catch_up_payments_lp_share :=
                          AList.update dt (PyFloat 0) (catch_up_payments_lp_share s),
                        post_catch_up_payments_gp_share :=
                          AList.update dt (PyFloat 0) (post_catch_up_payments_gp_share s),
                        post_catch_up_payments_lp_share :=
                          AList.update dt (PyFloat 0) (post_catch_up_payments_lp_share s)\<rparr>))"

definition generate_proceeds_allocations_as_dict :: "closed_end_fund \<Rightarrow> error + schedules" where
  "generate_proceeds_allocations_as_dict self =
     (case generate_deployments self of
        Inl e \<Rightarrow> Inl e
      | Inr deployments \<Rightarrow>
     (case generate_proceeds self of
        Inl e \<Rightarrow> Inl e
      | Inr proceeds \<Rightarrow>
     (case generate_capital_returns self of
        Inl e \<Rightarrow> Inl e
      | Inr capital_returns \<Rightarrow>
     (case monthly_date_series self of
        Inl e \<Rightarrow> Inl e
      | Inr dates \<Rightarrow>
          for_each (allocation_step self deployments proceeds) dates empty_schedules))))"

definition closing_invested_capital_step ::
  "(date, real) dict \<Rightarrow> (date, real) dict \<Rightarrow> date \<Rightarrow> (date, real) dict
     \<Rightarrow> error + (date, real) dict" where
  "closing_invested_capital_step deployments capital_returns dt closing_invested_capital =
     (case add_n_months dt (- 1) True of
        Inl e \<Rightarrow> Inl e
      | Inr prior \<Rightarrow>
          let opening_balance = dict_get closing_invested_capital prior 0;
              deployment = dict_get deployments dt 0;
              capital_return = dict_get capital_returns dt 0;
              closing_balance = opening_balance + deployment - capital_return
          in Inr (AList.update dt closing_balance closing_invested_capital))"

definition generate_closing_invested_capital :: "closed_end_fund \<Rightarrow> error + (date, real) dict" where
  "generate_closing_invested_capital self =
     (case generate_deployments self of
        Inl e \<Rightarrow> Inl e
      | Inr deployments \<Rightarrow>
     (case generate_capital_returns self of
        Inl e \<Rightarrow> Inl e
      | Inr capital_returns \<Rightarrow>
     (case monthly_date_series self of
        Inl e \<Rightarrow> Inl e
      | Inr dates \<Rightarrow>
          for_each (closing_invested_capital_step deployments capital_returns) dates [])))"

definition generate_fee_paying_capital :: "closed_end_fund \<Rightarrow> error + (date, real) dict" where
  "generate_fee_paying_capital self =
     (case generate_closing_invested_capital self of
        Inl e \<Rightarrow> Inl e
      | Inr closing_invested_capital \<Rightarrow>
     (case generate_deployments self of
        Inl e \<Rightarrow> Inl e
      | Inr deployments \<Rightarrow>
     (case py_max (map fst deployments) of
        Inl e \<Rightarrow> Inl e
      | Inr last_deployments \<Rightarrow>
     (case monthly_date_series self of
        Inl e \<Rightarrow> Inl e
      | Inr dates \<Rightarrow>
          for_each
            (\<lambda>dt fee_paying_capital.
               let capital =
                     (if date_le dt last_deployments then committed_capital self
                      else dict_get closing_invested_capital dt 0)
               in Inr (AList.update dt capital fee_paying_capital))
            dates []))))"

text \<open>
  The fee divides by the number of days of the year, an integer: ZeroDivisionError were it 0.
\<close>

definition generate_mgmt_fees :: "closed_end_fund \<Rightarrow> error + (date, real) dict" where
  "generate_mgmt_fees self =
     (case generate_closing_invested_capital self of
        Inl e \<Rightarrow> Inl e
      | Inr closing_invested_capital \<Rightarrow>
     (case generate_deployments self of
        Inl e \<Rightarrow> Inl e
      | Inr deployments \<Rightarrow>
     (case py_max (map fst deployments) of
        Inl e \<Rightarrow> Inl e
      | Inr last_deployments \<Rightarrow>
     (case monthly_date_series self of
        Inl e \<Rightarrow> Inl e
      | Inr dates \<Rightarrow>
          for_each
            (\<lambda>dt mgmt_fees.
               let num_days_in_month = days_in_month dt
               in case days_in_year dt of
                    Inl e \<Rightarrow> Inl e
                  | Inr num_days_in_year \<Rightarrow>
                      let closing_invested_capital_balance = dict_get closing_invested_capital dt 0
                      in if num_days_in_year = 0 then Inl ZeroDivisionError
                         else
                           let fee =
                                 (if date_le dt last_deployments
                                  then committed_capital self * annual_mgmt_fee_rate self
                                         * of_int num_days_in_month / of_int num_days_in_year
                                  else closing_invested_capital_balance * annual_mgmt_fee_rate self
                                         * of_int num_days_in_month / of_int num_days_in_year)
                           in Inr (AList.update dt fee mgmt_fees))
            dates []))))"

section \<open>Example funds\<close>

text \<open>\<open>Fund1\<close> of \<open>run_scenario.py\<close>.\<close>

definition fund1 :: closed_end_fund where
  "fund1 =
     \<lparr>fund_name = ''Fund1'',
      fund_start_date = \<lparr>year = 2021, month = 3, day = 31\<rparr>,
      deployment_start_date = \<lparr>year = 2021, month = 6, day = 30\<rparr>,
      annual_effective_irr = 0.15,
      committed_capital = 500000000,
      annual_mgmt_fee_rate = 0.005,
      carry_percent = 0.2,
      annual_effective_irr_hurdle = 0.1,
      number_of_months_of_deployment = 36,
      number_of_months_in_between_deployments = 3,
      length_of_deployment_in_months = 36,
      carry_catch_up = True\<rparr>"

text \<open>
  A fund of two monthly deployments held for one month.  The annual rates are twelfth powers
  less one, so that the monthly rates are rational: 100 percent for the return and 50
  percent for the hurdle.
\<close>

definition small_fund :: closed_end_fund where
  "small_fund =
     \<lparr>fund_name = ''Small'',
      fund_start_date = \<lparr>year = 2021, month = 1, day = 31\<rparr>,
      deployment_start_date = \<lparr>year = 2021, month = 2, day = 28\<rparr>,
      annual_effective_irr = 4095,
      committed_capital = 100,
      annual_mgmt_fee_rate = 0.005,
      carry_percent = 0.2,
      annual_effective_irr_hurdle = 527345 / 4096,
      number_of_months_of_deployment = 2,
      number_of_months_in_between_deployments = 1,
      length_of_deployment_in_months = 1,
      carry_catch_up = True\<rparr>"

text \<open>
  The eleven schedules of the waterfall of \<open>small_fund\<close>.  The proceeds are numpy scalars,
  and so is everything computed from them.
\<close>

definition small_fund_schedules :: schedules where
  "small_fund_schedules =
     \<lparr>lp_preferred_opening =
       [(\<lparr>year = 2021, month = 1, day = 31\<rparr>, PyFloat 0),
        (\<lparr>year = 2021, month = 2, day = 28\<rparr>, PyFloat 0),
        (\<lparr>year = 2021, month = 3, day = 31\<rparr>, PyFloat 50),
        (\<lparr>year = 2021, month = 4, day = 30\<rparr>, NpFloat64 25)],
     lp_preferred_irr_growth =
       [(\<lparr>year = 2021, month = 1, day = 31\<rparr>, PyFloat 0),
        (\<lparr>year = 2021, month = 2, day = 28\<rparr>, PyFloat 0),
        (\<lparr>year = 2021, month = 3, day = 31\<rparr>, PyFloat 25),
        (\<lparr>year = 2021, month = 4, day = 30\<rparr>, NpFloat64 (25 / 2))],
     lp_preferred_payments =
       [(\<lparr>year = 2021, month = 1, day = 31\<rparr>, PyFloat 0),
        (\<lparr>year = 2021, month = 2, day = 28\<rparr>, PyFloat 0),
        (\<lparr>year = 2021, month = 3, day = 31\<rparr>, NpFloat64 100),
        (\<lparr>year = 2021, month = 4, day = 30\<rparr>, NpFloat64 (75 / 2))],
     lp_preferred_closing =
       [(\<lparr>year = 2021, month = 1, day = 31\<rparr>, PyFloat 0),
        (\<lparr>year = 2021, month = 2, day = 28\<rparr>, PyFloat 50),
        (\<lparr>year = 2021, month = 3, day = 31\<rparr>, NpFloat64 25),
        (\<lparr>year = 2021, month = 4, day = 30\<rparr>, NpFloat64 0)],
     catch_up_opening =
       [(\<lparr>year = 2021, month = 1, day = 31\<rparr>, PyFloat 0),
        (\<lparr>year = 2021, month = 2, day = 28\<rparr>, PyFloat 0),
        (\<lparr>year = 2021, month = 3, day = 31\<rparr>, PyFloat 0),
        (\<lparr>year = 2021, month = 4, day = 30\<rparr>, PyFloat (25 / 3))],
     catch_up_accruals =
       [(\<lparr>year = 2021, month = 1, day = 31\<rparr>, PyFloat 0),
        (\<lparr>year = 2021, month = 2, day = 28\<rparr>, PyFloat 0),
        (\<lparr>year = 2021, month = 3, day = 31\<rparr>, PyFloat (25 / 3)),
        (\<lparr>year = 2021, month = 4, day = 30\<rparr>, NpFloat64 (25 / 6))],
     catch_up_payments_gp_share =
       [(\<lparr>year = 2021, month = 1, day = 31\<rparr>, PyFloat 0),
        (\<lparr>year = 2021, month = 2, day = 28\<rparr>, PyFloat 0),
        (\<lparr>year = 2021, month = 3, day = 31\<rparr>, PyFloat 0),
        (\<lparr>year = 2021, month = 4, day = 30\<rparr>, NpFloat64 (25 / 2))],
     catch_up_payments_lp_share =
       [(\<lparr>year = 2021, month = 1, day = 31\<rparr>, PyFloat 0),
        (\<lparr>year = 2021, month = 2, day = 28\<rparr>, PyFloat 0),
        (\<lparr>year = 2021, month = 3, day = 31\<rparr>, PyFloat 0),
        (\<lparr>year = 2021, month = 4, day = 30\<rparr>, NpFloat64 (25 / 2))],
     catch_up_closing =
       [(\<lparr>year = 2021, month = 1, day = 31\<rparr>, PyFloat 0),
        (\<lparr>year = 2021, month = 2, day = 28\<rparr>, PyFloat 0),
        (\<lparr>year = 2021, month = 3, day = 31\<rparr>, PyFloat (25 / 3)),
        (\<lparr>year = 2021, month = 4, day = 30\<rparr>, NpFloat64 0)],
     post_catch_up_payments_gp_share =
       [(\<lparr>year = 2021, month = 1, day = 31\<rparr>, PyFloat 0),
        (\<lparr>year = 2021, month = 2, day = 28\<rparr>, PyFloat 0),
        (\<lparr>year = 2021, month = 3, day = 31\<rparr>, PyFloat 0),
        (\<lparr>year = 2021, month = 4, day = 30\<rparr>, NpFloat64 (15 / 2))],
     post_catch_up_payments_lp_share =
       [(\<lparr>year = 2021, month = 1, day = 31\<rparr>, PyFloat 0),
        (\<lparr>year = 2021, month = 2, day = 28\<rparr>, PyFloat 0),
        (\<lparr>year = 2021, month = 3, day = 31\<rparr>, PyFloat 0),
        (\<lparr>year = 2021, month = 4, day = 30\<rparr>, NpFloat64 30)]\<rparr>"

text \<open>
  A fund that the constructor accepts with an annual return of minus 200 percent: one
  deployment of 100 at the fund start, held for six months, and a hurdle rate of 0.  The
  monthly rate is complex, \<open>cis (pi / 12) - 1\<close>, and the proceed after six months is
  \<open>100 * cis (pi / 2)\<close>, a \<open>numpy.complex128\<close>.
\<close>

definition negative_irr_fund :: closed_end_fund where
  "negative_irr_fund =
     \<lparr>fund_name = ''Negative'',
      fund_start_date = \<lparr>year = 2021, month = 1, day = 31\<rparr>,
      deployment_start_date = \<lparr>year = 2021, month = 1, day = 31\<rparr>,
      annual_effective_irr = - 2,
      committed_capital = 100,
      annual_mgmt_fee_rate = 0.005,
      carry_percent = 0.2,
      annual_effective_irr_hurdle = 0,
      number_of_months_of_deployment = 1,
      number_of_months_in_between_deployments = 1,
      length_of_deployment_in_months = 6,
      carry_catch_up = True\<rparr>"

definition negative_irr_fund_schedules :: schedules where
  "negative_irr_fund_schedules =
     \<lparr>lp_preferred_opening =
       [(\<lparr>year = 2021, month = 1, day = 31\<rparr>, PyFloat 0),
        (\<lparr>year = 2021, month = 2, day = 28\<rparr>, PyFloat 100),
        (\<lparr>year = 2021, month = 3, day = 31\<rparr>, PyFloat 100),
        (\<lparr>year = 2021, month = 4, day = 30\<rparr>, PyFloat 100),
        (\<lparr>year = 2021, month = 5, day = 31\<rparr>, PyFloat 100),
        (\<lparr>year = 2021, month = 6, day = 30\<rparr>, PyFloat 100),
        (\<lparr>year = 2021, month = 7, day = 31\<rparr>, PyFloat 100)],
     lp_preferred_irr_growth =
       [(\<lparr>year = 2021, month = 1, day = 31\<rparr>, PyFloat 0),
        (\<lparr>year = 2021, month = 2, day = 28\<rparr>, PyFloat 0),
        (\<lparr>year = 2021, month = 3, day = 31\<rparr>, PyFloat 0),
        (\<lparr>year = 2021, month = 4, day = 30\<rparr>, PyFloat 0),
        (\<lparr>year = 2021, month = 5, day = 31\<rparr>, PyFloat 0),
        (\<lparr>year = 2021, month = 6, day = 30\<rparr>, PyFloat 0),
        (\<lparr>year = 2021, month = 7, day = 31\<rparr>, PyFloat 0)],
     lp_preferred_payments =
       [(\<lparr>year = 2021, month = 1, day = 31\<rparr>, PyFloat 0),
        (\<lparr>year = 2021, month = 2, day = 28\<rparr>, PyFloat 0),
        (\<lparr>year = 2021, month = 3, day = 31\<rparr>, PyFloat 0),
        (\<lparr>year = 2021, month = 4, day = 30\<rparr>, PyFloat 0),
        (\<lparr>year = 2021, month = 5, day = 31\<rparr>, PyFloat 0),
        (\<lparr>year = 2021, month = 6, day = 30\<rparr>, PyFloat 0),
        (\<lparr>year = 2021, month = 7, day = 31\<rparr>, NpComplex128 (100 * \<i>))],
     lp_preferred_closing =
       [(\<lparr>year = 2021, month = 1, day = 31\<rparr>, PyFloat 100),
        (\<lparr>year = 2021, month = 2, day = 28\<rparr>, PyFloat 100),
        (\<lparr>year = 2021, month = 3, day = 31\<rparr>, PyFloat 100),
        (\<lparr>year = 2021, month = 4, day = 30\<rparr>, PyFloat 100),
        (\<lparr>year = 2021, month = 5, day = 31\<rparr>, PyFloat 100),
        (\<lparr>year = 2021, month = 6, day = 30\<rparr>, PyFloat 100),
        (\<lparr>year = 2021, month = 7, day = 31\<rparr>, NpComplex128 (100 - 100 * \<i>))],
     catch_up_opening =
       [(\<lparr>year = 2021, month = 1, day = 31\<rparr>, PyFloat 0),
        (\<lparr>year = 2021, month = 2, day = 28\<rparr>, PyFloat 0),
        (\<lparr>year = 2021, month = 3, day = 31\<rparr>, PyFloat 0),
        (\<lparr>year = 2021, month = 4, day = 30\<rparr>, PyFloat 0),
        (\<lparr>year = 2021, month = 5, day = 31\<rparr>, PyFloat 0),
        (\<lparr>year = 2021, month = 6, day = 30\<rparr>, PyFloat 0),
        (\<lparr>year = 2021, month = 7, day = 31\<rparr>, PyFloat 0)],
     catch_up_accruals =
       [(\<lparr>year = 2021, month = 1, day = 31\<rparr>, PyFloat 0),
        (\<lparr>year = 2021, month = 2, day = 28\<rparr>, PyFloat 0),
        (\<lparr>year = 2021, month = 3, day = 31\<rparr>, PyFloat 0),
        (\<lparr>year = 2021, month = 4, day = 30\<rparr>, PyFloat 0),
        (\<lparr>year = 2021, month = 5, day = 31\<rparr>, PyFloat 0),
        (\<lparr>year = 2021, month = 6, day = 30\<rparr>, PyFloat 0),
        (\<lparr>year = 2021, month = 7, day = 31\<rparr>, PyFloat 0)],
     catch_up_payments_gp_share =
       [(\<lparr>year = 2021, month = 1, day = 31\<rparr>, PyFloat 0),
        (\<lparr>year = 2021, month = 2, day = 28\<rparr>, PyFloat 0),
        (\<lparr>year = 2021, month = 3, day = 31\<rparr>, PyFloat 0),
        (\<lparr>year = 2021, month = 4, day = 30\<rparr>, PyFloat 0),
        (\<lparr>year = 2021, month = 5, day = 31\<rparr>, PyFloat 0),
        (\<lparr>year = 2021, month = 6, day = 30\<rparr>, PyFloat 0),
        (\<lparr>year = 2021, month = 7, day = 31\<rparr>, PyFloat 0)],
     catch_up_payments_lp_share =
       [(\<lparr>year = 2021, month = 1, day = 31\<rparr>, PyFloat 0),
        (\<lparr>year = 2021, month = 2, day = 28\<rparr>, PyFloat 0),
        (\<lparr>year = 2021, month = 3, day = 31\<rparr>, PyFloat 0),
        (\<lparr>year = 2021, month = 4, day = 30\<rparr>, PyFloat 0),
        (\<lparr>year = 2021, month = 5, day = 31\<rparr>, PyFloat 0),
        (\<lparr>year = 2021, month = 6, day = 30\<rparr>, PyFloat 0),
        (\<lparr>year = 2021, month = 7, day = 31\<rparr>, PyFloat 0)],
     catch_up_closing =
       [(\<lparr>year = 2021, month = 1, day = 31\<rparr>, PyFloat 0),
        (\<lparr>year = 2021, month = 2, day = 28\<rparr>, PyFloat 0),
        (\<lparr>year = 2021, month = 3, day = 31\<rparr>, PyFloat 0),
        (\<lparr>year = 2021, month = 4, day = 30\<rparr>, PyFloat 0),
        (\<lparr>year = 2021, month = 5, day = 31\<rparr>, PyFloat 0),
        (\<lparr>year = 2021, month = 6, day = 30\<rparr>, PyFloat 0),
        (\<lparr>year = 2021, month = 7, day = 31\<rparr>, PyFloat 0)],
     post_catch_up_payments_gp_share =
       [(\<lparr>year = 2021, month = 1, day = 31\<rparr>, PyFloat 0),
        (\<lparr>year = 2021, month = 2, day = 28\<rparr>, PyFloat 0),
        (\<lparr>year = 2021, month = 3, day = 31\<rparr>, PyFloat 0),
        (\<lparr>year = 2021, month = 4, day = 30\<rparr>, PyFloat 0),
        (\<lparr>year = 2021, month = 5, day = 31\<rparr>, PyFloat 0),
        (\<lparr>year = 2021, month = 6, day = 30\<rparr>, PyFloat 0),
        (\<lparr>year = 2021, month = 7, day = 31\<rparr>, PyFloat 0)],
     post_catch_up_payments_lp_share =
       [(\<lparr>year = 2021, month = 1, day = 31\<rparr>, PyFloat 0),
        (\<lparr>year = 2021, month = 2, day = 28\<rparr>, PyFloat 0),
        (\<lparr>year = 2021, month = 3, day = 31\<rparr>, PyFloat 0),
        (\<lparr>year = 2021, month = 4, day = 30\<rparr>, PyFloat 0),
        (\<lparr>year = 2021, month = 5, day = 31\<rparr>, PyFloat 0),
        (\<lparr>year = 2021, month = 6, day = 30\<rparr>, PyFloat 0),
        (\<lparr>year = 2021, month = 7, day = 31\<rparr>, PyFloat 0)]\<rparr>"

text \<open>A fund that starts in January of the year 1, the first month of \<open>datetime.date\<close>.\<close>

definition year_one_fund :: closed_end_fund where
  "year_one_fund =
     \<lparr>fund_name = ''Year one'',
      fund_start_date = \<lparr>year = 1, month = 1, day = 31\<rparr>,
      deployment_start_date = \<lparr>year = 1, month = 1, day = 31\<rparr>,
      annual_effective_irr = 4095,
      committed_capital = 100,
      annual_mgmt_fee_rate = 0.005,
      carry_percent = 0.2,
      annual_effective_irr_hurdle = 527345 / 4096,
      number_of_months_of_deployment = 2,
      number_of_months_in_between_deployments = 1,
      length_of_deployment_in_months = 1,
      carry_catch_up = True\<rparr>"

section \<open>Auxiliary notions for the proofs\<close>

text \<open>
  The year and the month that the two decoding branches of \<open>end_of_month_from_int\<close> and
  \<open>add_n_months\<close> compute, the month-end date of a month index, and the indices whose year
  lies between 1 and 9999.
\<close>

definition ym_year :: "int \<Rightarrow> int" where
  "ym_year i = (if i mod 12 \<noteq> 0 then i div 12 else i div 12 - 1)"

definition ym_month :: "int \<Rightarrow> int" where
  "ym_month i = (if i mod 12 \<noteq> 0 then i mod 12 else 12)"

definition month_end_of :: "int \<Rightarrow> date" where
  "month_end_of i =
     \<lparr>year = ym_year i, month = ym_month i, day = monthrange (ym_year i) (ym_month i)\<rparr>"

definition representable :: "int \<Rightarrow> bool" where
  "representable i = (13 \<le> i \<and> i \<le> 120000)"

text \<open>
  The numbers that can be compared with every float and every numpy scalar: all but the
  Python complex numbers.
\<close>

definition comparable :: "pynum \<Rightarrow> bool" where
  "comparable a = (is_numpy a \<or> \<not> is_complex a)"

text \<open>
  The entries of the eleven schedules at one date, as one step of the waterfall writes them
  from the two opening balances \<open>lo\<close> (LP preferred) and \<open>co\<close> (catch-up), the deployment
  and the proceed of the date; the four comparisons of the step return.
\<close>

definition waterfall_row ::
  "closed_end_fund \<Rightarrow> real \<Rightarrow> pynum \<Rightarrow> pynum \<Rightarrow> pynum \<Rightarrow> schedules \<Rightarrow> date \<Rightarrow> bool" where
  "waterfall_row self dep proceed lo co t dt =
     (let lg = py_mul lo (irr_hurdle_per_month self);
          due = py_add (py_add lo lg) (PyFloat dep);
          ca = py_mul
                 (py_mul lg (PyFloat (carry_percent self / (0.5 - carry_percent self) * 0.5)))
                 (PyFloat (if carry_catch_up self then 1 else 0))
      in case py_min proceed due of
           Inl e \<Rightarrow> False
         | Inr lpay \<Rightarrow>
             map_of (lp_preferred_opening t) dt = Some lo
           \<and> map_of (lp_preferred_irr_growth t) dt = Some lg
           \<and> map_of (lp_preferred_payments t) dt = Some lpay
           \<and> map_of (lp_preferred_closing t) dt = Some (py_sub due lpay)
           \<and> map_of (catch_up_opening t) dt = Some co
           \<and> map_of (catch_up_accruals t) dt = Some ca
           \<and> (case py_gt proceed lpay of
                 Inl e \<Rightarrow> False
               | Inr surplus \<Rightarrow>
                   if surplus
                   then
                     (case py_min (py_div (py_add co ca) (PyFloat 0.5)) (py_sub proceed lpay) of
                        Inl e \<Rightarrow> False
                      | Inr cp \<Rightarrow>
                          map_of (catch_up_payments_gp_share t) dt = Some (py_mul cp (PyFloat 0.5))
                        \<and> map_of (catch_up_payments_lp_share t) dt = Some (py_mul cp (PyFloat 0.5))
                        \<and> map_of (catch_up_closing t) dt
                            = Some (py_sub (py_add co ca) (py_mul cp (PyFloat 0.5)))
                        \<and> (case py_gt proceed (py_add lpay cp) of
                              Inl e \<Rightarrow> False
                            | Inr remainder \<Rightarrow>
                                if remainder
                                then
                                  map_of (post_catch_up_payments_gp_share t) dt
                                    = Some (py_mul (py_sub (py_sub proceed lpay) cp)
                                              (PyFloat (carry_percent self)))
                                \<and> map_of (post_catch_up_payments_lp_share t) dt
                                    = Some (py_mul (py_sub (py_sub proceed lpay) cp)
                                              (PyFloat (1 - carry_percent self)))
                                else
                                  map_of (post_catch_up_payments_gp_share t) dt = Some (PyFloat 0)
                                \<and> map_of (post_catch_up_payments_lp_share t) dt = Some (PyFloat 0)))
                   else
                     map_of (catch_up_payments_gp_share t) dt = Some (PyFloat 0)
                   \<and> map_of (catch_up_payments_lp_share t) dt = Some (PyFloat 0)
                   \<and> map_of (catch_up_closing t) dt = Some (py_add co ca)
                   \<and> map_of (post_catch_up_payments_gp_share t) dt = Some (PyFloat 0)
                   \<and> map_of (post_catch_up_payments_lp_share t) dt = Some (PyFloat 0)))"

section \<open>Calendar facts\<close>

lemma monthrange_bounds: "1 \<le> m \<Longrightarrow> m \<le> 12 \<Longrightarrow> 28 \<le> monthrange y m \<and> monthrange y m \<le> 31"
proof -
  assume "1 \<le> m" "m \<le> 12"
  then have "m = 1 \<or> m = 2 \<or> m = 3 \<or> m = 4 \<or> m = 5 \<or> m = 6 \<or> m = 7 \<or> m = 8 \<or> m = 9
      \<or> m = 10 \<or> m = 11 \<or> m = 12"
    by arith
  then show ?thesis
    by (auto simp: monthrange_def mdays_def)
qed

lemma decode_month_range: "1 \<le> ym_month i \<and> ym_month i \<le> 12"
proof (cases "i mod 12 = 0")
  case True
  then show ?thesis by (simp add: ym_month_def)
next
  case False
  define x where "x = i mod 12"
  have "0 \<le> x" "x < 12" "x \<noteq> 0"
    using False by (simp_all add: x_def)
  then have "1 \<le> x \<and> x \<le> 12" by linarith
  with False show ?thesis by (simp add: ym_month_def x_def)
qed

lemma decode_sum: "ym_year i * 12 + ym_month i = i"
proof -
  have "i div 12 * 12 + i mod 12 = i" by (rule div_mult_mod_eq)
  then show ?thesis
    by (cases "i mod 12 = 0") (simp_all add: ym_year_def ym_month_def algebra_simps)
qed

lemma decode_unique:
  assumes "y * 12 + m = i" and "1 \<le> m" and "m \<le> 12"
  shows "ym_year i = y \<and> ym_month i = m"
proof -
  define y' where "y' = ym_year i"
  define m' where "m' = ym_month i"
  have "y' * 12 + m' = y * 12 + m"
    using assms(1) by (simp add: y'_def m'_def decode_sum)
  moreover have "1 \<le> m'" "m' \<le> 12"
    using decode_month_range [of i] by (simp_all add: m'_def)
  ultimately have "y' = y \<and> m' = m"
    using assms(2,3) by presburger
  then show ?thesis by (simp add: y'_def m'_def)
qed

lemma decode_encode:
  assumes "1 \<le> m" "m \<le> 12"
  shows "ym_year (y * 12 + m) = y" "ym_month (y * 12 + m) = m"
  using decode_unique [OF refl assms] by simp_all

lemma ym_year_representable: "representable i \<longleftrightarrow> 1 \<le> ym_year i \<and> ym_year i \<le> 9999"
proof -
  define y where "y = ym_year i"
  define m where "m = ym_month i"
  have "y * 12 + m = i" "1 \<le> m" "m \<le> 12"
    using decode_sum [of i] decode_month_range [of i] by (simp_all add: y_def m_def)
  then have "(13 \<le> i \<and> i \<le> 120000) \<longleftrightarrow> (1 \<le> y \<and> y \<le> 9999)" by linarith
  then show ?thesis by (simp add: representable_def y_def)
qed

lemma valid_month_end_of: "representable i \<Longrightarrow> valid_date (month_end_of i)"
  using decode_month_range [of i] monthrange_bounds [of "ym_month i" "ym_year i"]
  by (simp add: valid_date_def valid_ymd_def month_end_of_def ym_year_representable)

lemma year_month_num_month_end_of [simp]: "year_month_num (month_end_of i) = i"
  by (simp add: year_month_num_def month_end_of_def decode_sum)

lemma end_of_month_from_int_eq:
  "end_of_month_from_int i = (if representable i then Inr (month_end_of i) else Inl ValueError)"
proof -
  have "end_of_month_from_int i =
      datetime_date (ym_year i) (ym_month i) (monthrange (ym_year i) (ym_month i))"
    by (simp add: end_of_month_from_int_def ym_year_def ym_month_def)
  moreover have "valid_ymd (ym_year i) (ym_month i) (monthrange (ym_year i) (ym_month i))
      \<longleftrightarrow> representable i"
    using decode_month_range [of i] monthrange_bounds [of "ym_month i" "ym_year i"]
    by (simp add: valid_ymd_def ym_year_representable)
  ultimately show ?thesis
    by (simp add: datetime_date_def month_end_of_def)
qed

lemma valid_date_representable: "valid_date dt \<Longrightarrow> representable (year_month_num dt)"
  unfolding valid_date_def valid_ymd_def representable_def year_month_num_def by linarith

lemma valid_date_decode:
  assumes "valid_date dt"
  shows "ym_year (year_month_num dt) = year dt" "ym_month (year_month_num dt) = month dt"
  using assms decode_encode [of "month dt" "year dt"]
  by (simp_all add: valid_date_def valid_ymd_def year_month_num_def)

lemma add_n_months_False:
  "add_n_months dt n False =
     (let i = year_month_num dt + n
      in datetime_date (ym_year i) (ym_month i) (min (day dt) (monthrange (ym_year i) (ym_month i))))"
  by (simp add: add_n_months_def ym_year_def ym_month_def Let_def split: sum.splits)

lemma add_n_months_True:
  assumes "valid_date dt"
  shows "add_n_months dt n True = end_of_month_from_int (year_month_num dt + n)"
proof -
  define i where "i = year_month_num dt + n"
  define dd where "dd = min (day dt) (monthrange (ym_year i) (ym_month i))"
  have day: "1 \<le> dd \<and> dd \<le> monthrange (ym_year i) (ym_month i)"
    using assms decode_month_range [of i] monthrange_bounds [of "ym_month i" "ym_year i"]
    by (simp add: dd_def valid_date_def valid_ymd_def)
  have v: "valid_ymd (ym_year i) (ym_month i) dd \<longleftrightarrow> representable i"
    using day decode_month_range [of i] by (simp add: valid_ymd_def ym_year_representable)
  have step: "add_n_months dt n True =
      (case datetime_date (ym_year i) (ym_month i) dd of
         Inl e \<Rightarrow> Inl e | Inr r \<Rightarrow> end_of_month_from_date r)"
    by (simp add: add_n_months_def ym_year_def ym_month_def Let_def i_def dd_def
        split: sum.splits)
  show ?thesis
  proof (cases "representable i")
    case True
    have "year_month_num \<lparr>year = ym_year i, month = ym_month i, day = dd\<rparr> = i"
      by (simp add: year_month_num_def decode_sum)
    with True v show ?thesis
      by (simp add: step datetime_date_def end_of_month_from_date_def i_def)
  next
    case False
    with v show ?thesis
      by (simp add: step datetime_date_def end_of_month_from_int_eq i_def)
  qed
qed

lemma end_of_month_from_date_eq:
  "valid_date dt \<Longrightarrow> end_of_month_from_date dt = Inr (month_end_of (year_month_num dt))"
  by (simp add: end_of_month_from_date_def end_of_month_from_int_eq valid_date_representable)

lemma traverse_map_Inr: "(\<And>x. x \<in> set xs \<Longrightarrow> f x = Inr (g x)) \<Longrightarrow> traverse f xs = Inr (map g xs)"
  by (induction xs) simp_all

lemma date_less_month_end_of: "date_less (month_end_of i) (month_end_of j) \<longleftrightarrow> i < j"
proof -
  have "ym_year i < ym_year j \<or> (ym_year i = ym_year j \<and> ym_month i < ym_month j) \<longleftrightarrow> i < j"
    using decode_sum [of i] decode_sum [of j] decode_month_range [of i] decode_month_range [of j]
    by arith
  then show ?thesis
    by (auto simp: date_less_def month_end_of_def)
qed

lemma month_end_of_inj: "month_end_of i = month_end_of j \<longleftrightarrow> i = j"
  by (metis year_month_num_month_end_of)

lemma generate_monthly_date_series_eq:
  assumes "valid_date a" "valid_date b"
  shows "generate_monthly_date_series a b =
    Inr (map (\<lambda>k. month_end_of (year_month_num a + int k))
           [0..<nat (year_month_num b - year_month_num a + 1)])"
proof -
  have ra: "representable (year_month_num a)" and rb: "representable (year_month_num b)"
    using assms by (simp_all add: valid_date_representable)
  have "traverse (\<lambda>diff. end_of_month_from_int (year_month_num a + diff))
          (py_range 0 (year_month_num b - year_month_num a + 1))
      = Inr (map (\<lambda>diff. month_end_of (year_month_num a + diff))
          (py_range 0 (year_month_num b - year_month_num a + 1)))"
  proof (rule traverse_map_Inr)
    fix x assume "x \<in> set (py_range 0 (year_month_num b - year_month_num a + 1))"
    then have "0 \<le> x" "x \<le> year_month_num b - year_month_num a"
      by (auto simp: py_range_def)
    with ra rb have "representable (year_month_num a + x)"
      by (simp add: representable_def)
    then show "end_of_month_from_int (year_month_num a + x) = Inr (month_end_of (year_month_num a + x))"
      by (simp add: end_of_month_from_int_eq)
  qed
  then show ?thesis
    by (simp add: generate_monthly_date_series_def number_of_months_diff_def py_range_def comp_def)
qed

lemmas calendar_eval = date_less_def end_of_month_from_date_def
  end_of_month_from_int_def year_month_num_def datetime_date_def valid_date_def valid_ymd_def
  monthrange_def mdays_def isleap_def Let_def add_n_months_def number_of_months_diff_def
  generate_monthly_date_series_def py_range_def

section \<open>Claims about the calendar arithmetic\<close>

text \<open>
  C7.  For every date and every integer \<open>n\<close>, snapping the date to its month-end and then
  shifting by \<open>n\<close> months with the snap flag set gives the same outcome as shifting by \<open>n\<close>
  months without the flag and snapping afterwards: the same date, or, when the target month
  lies outside the years 1 to 9999, the same ValueError on both sides.
\<close>

theorem add_n_months_end_of_month_commute:
  assumes "valid_date dt"
  shows "(case end_of_month_from_date dt of
            Inl e \<Rightarrow> Inl e
          | Inr eom \<Rightarrow> add_n_months eom n True)
       = (case add_n_months dt n False of
            Inl e \<Rightarrow> Inl e
          | Inr shifted \<Rightarrow> end_of_month_from_date shifted)"
proof -
  define i where "i = year_month_num dt + n"
  have rep: "representable (year_month_num dt)"
    using assms by (rule valid_date_representable)
  have lhs: "(case end_of_month_from_date dt of Inl e \<Rightarrow> Inl e | Inr eom \<Rightarrow> add_n_months eom n True)
      = end_of_month_from_int i"
    using assms rep
    by (simp add: end_of_month_from_date_eq add_n_months_True valid_month_end_of i_def)
  define dd where "dd = min (day dt) (monthrange (ym_year i) (ym_month i))"
  have day: "1 \<le> dd \<and> dd \<le> monthrange (ym_year i) (ym_month i)"
    using assms decode_month_range [of i] monthrange_bounds [of "ym_month i" "ym_year i"]
    by (simp add: dd_def valid_date_def valid_ymd_def)
  have v: "valid_ymd (ym_year i) (ym_month i) dd \<longleftrightarrow> representable i"
    using day decode_month_range [of i] by (simp add: valid_ymd_def ym_year_representable)
  have "year_month_num \<lparr>year = ym_year i, month = ym_month i, day = dd\<rparr> = i"
    by (simp add: year_month_num_def decode_sum)
  then have rhs: "(case add_n_months dt n False of Inl e \<Rightarrow> Inl e
      | Inr shifted \<Rightarrow> end_of_month_from_date shifted) = end_of_month_from_int i"
    using v
    by (simp add: add_n_months_False Let_def datetime_date_def end_of_month_from_date_def
        end_of_month_from_int_eq flip: i_def dd_def)
  from lhs rhs show ?thesis by simp
qed

theorem add_n_months_end_of_month_commute_witness:
  "valid_date \<lparr>year = 2021, month = 1, day = 30\<rparr>
   \<and> (case end_of_month_from_date \<lparr>year = 2021, month = 1, day = 30\<rparr> of
        Inl e \<Rightarrow> Inl e | Inr eom \<Rightarrow> add_n_months eom 1 True)
     = Inr \<lparr>year = 2021, month = 2, day = 28\<rparr>
   \<and> (case add_n_months \<lparr>year = 2021, month = 1, day = 30\<rparr> 1 False of
        Inl e \<Rightarrow> Inl e | Inr shifted \<Rightarrow> end_of_month_from_date shifted)
     = Inr \<lparr>year = 2021, month = 2, day = 28\<rparr>"
proof -
  have v: "valid_date \<lparr>year = 2021, month = 1, day = 30\<rparr>"
    by (simp add: calendar_eval)
  have r: "(case add_n_months \<lparr>year = 2021, month = 1, day = 30\<rparr> 1 False of
        Inl e \<Rightarrow> Inl e | Inr shifted \<Rightarrow> end_of_month_from_date shifted)
     = Inr \<lparr>year = 2021, month = 2, day = 28\<rparr>"
    by (simp add: calendar_eval)
  from add_n_months_end_of_month_commute [OF v, of 1] r v show ?thesis by simp
qed

text \<open>
  C6, as stated, fails when the month of \<open>b\<close> precedes the month of \<open>a\<close>: the series is
  empty, while \<open>months_between(a, b) + 1\<close> is negative.
\<close>

theorem generate_monthly_date_series_reversed:
  "generate_monthly_date_series \<lparr>year = 2021, month = 3, day = 31\<rparr>
       \<lparr>year = 2021, month = 1, day = 31\<rparr> = Inr []
   \<and> number_of_months_diff \<lparr>year = 2021, month = 3, day = 31\<rparr>
       \<lparr>year = 2021, month = 1, day = 31\<rparr> + 1 = - 1"
  by (simp add: calendar_eval)

text \<open>
  C6 (amended).  For every pair of dates \<open>a\<close> and \<open>b\<close> such that the month of \<open>a\<close> is not
  after the month of \<open>b\<close>, \<open>generate_monthly_date_series a b\<close> returns a list of month-end
  dates of length \<open>number_of_months_diff a b + 1\<close>, whose first element is the month-end of
  \<open>a\<close>'s month, whose last element is the month-end of \<open>b\<close>'s month, and in which each element
  is the month-end one month after its predecessor, hence strictly later.
\<close>

theorem generate_monthly_date_series_correct:
  assumes "valid_date a" and "valid_date b"
    and "year_month_num a \<le> year_month_num b"
  shows "\<exists>ds. generate_monthly_date_series a b = Inr ds
      \<and> int (length ds) = number_of_months_diff a b + 1
      \<and> (\<forall>d \<in> set ds. end_of_month_from_date d = Inr d)
      \<and> end_of_month_from_date a = Inr (hd ds)
      \<and> end_of_month_from_date b = Inr (last ds)
      \<and> (\<forall>i. Suc i < length ds \<longrightarrow>
            add_n_months (ds ! i) 1 True = Inr (ds ! Suc i)
          \<and> year_month_num (ds ! Suc i) = year_month_num (ds ! i) + 1
          \<and> date_less (ds ! i) (ds ! Suc i))"
proof -
  define n where "n = nat (year_month_num b - year_month_num a + 1)"
  define ds where "ds = map (\<lambda>k. month_end_of (year_month_num a + int k)) [0..<n]"
  have ra: "representable (year_month_num a)" and rb: "representable (year_month_num b)"
    using assms by (simp_all add: valid_date_representable)
  have n: "int n = year_month_num b - year_month_num a + 1" "0 < n"
    using assms(3) by (simp_all add: n_def)
  have len: "length ds = n" by (simp add: ds_def)
  have nth: "ds ! k = month_end_of (year_month_num a + int k)" if "k < n" for k
    using that by (simp add: ds_def)
  have rep: "representable (year_month_num a + int k)" if "k < n" for k
    using that ra rb n by (simp add: representable_def)
  have 1: "generate_monthly_date_series a b = Inr ds"
    using assms(1,2) by (simp add: generate_monthly_date_series_eq ds_def n_def)
  have 2: "int (length ds) = number_of_months_diff a b + 1"
    by (simp add: len n number_of_months_diff_def)
  have 3: "\<forall>d \<in> set ds. end_of_month_from_date d = Inr d"
  proof
    fix d assume "d \<in> set ds"
    then obtain k where "k < n" "d = month_end_of (year_month_num a + int k)"
      by (auto simp: ds_def)
    then show "end_of_month_from_date d = Inr d"
      using rep [of k] by (simp add: end_of_month_from_date_def end_of_month_from_int_eq)
  qed
  have ne: "ds \<noteq> []" using n len by auto
  have "hd ds = ds ! 0" using ne by (simp add: hd_conv_nth)
  then have 4: "end_of_month_from_date a = Inr (hd ds)"
    using assms(1) n nth [of 0] by (simp add: end_of_month_from_date_eq)
  have "last ds = ds ! (n - 1)" using ne len by (simp add: last_conv_nth)
  moreover have "year_month_num a + int (n - 1) = year_month_num b" using n by simp
  ultimately have 5: "end_of_month_from_date b = Inr (last ds)"
    using assms(2) n nth [of "n - 1"] by (simp add: end_of_month_from_date_eq)
  have 6: "add_n_months (ds ! i) 1 True = Inr (ds ! Suc i)
          \<and> year_month_num (ds ! Suc i) = year_month_num (ds ! i) + 1
          \<and> date_less (ds ! i) (ds ! Suc i)" if "Suc i < length ds" for i
  proof -
    from that len have i: "i < n" "Suc i < n" by simp_all
    have "add_n_months (ds ! i) 1 True = end_of_month_from_int (year_month_num a + int i + 1)"
      using rep [OF i(1)] by (simp add: nth [OF i(1)] add_n_months_True valid_month_end_of)
    also have "\<dots> = Inr (ds ! Suc i)"
      using rep [OF i(2)] by (simp add: nth [OF i(2)] end_of_month_from_int_eq add.commute add.left_commute)
    finally show ?thesis
      by (simp add: nth [OF i(1)] nth [OF i(2)] date_less_month_end_of)
  qed
  from 1 2 3 4 5 6 show ?thesis by blast
qed

theorem generate_monthly_date_series_correct_witness:
  "generate_monthly_date_series \<lparr>year = 2020, month = 12, day = 15\<rparr>
       \<lparr>year = 2021, month = 2, day = 3\<rparr> =
     Inr [\<lparr>year = 2020, month = 12, day = 31\<rparr>, \<lparr>year = 2021, month = 1, day = 31\<rparr>,
          \<lparr>year = 2021, month = 2, day = 28\<rparr>]
   \<and> number_of_months_diff \<lparr>year = 2020, month = 12, day = 15\<rparr>
       \<lparr>year = 2021, month = 2, day = 3\<rparr> + 1 = 3
   \<and> add_n_months \<lparr>year = 2020, month = 12, day = 31\<rparr> 1 True
       = Inr \<lparr>year = 2021, month = 1, day = 31\<rparr>"
proof -
  have a: "valid_date \<lparr>year = 2020, month = 12, day = 15\<rparr>"
    and b: "valid_date \<lparr>year = 2021, month = 2, day = 3\<rparr>"
    and le: "year_month_num \<lparr>year = 2020, month = 12, day = 15\<rparr>
        \<le> year_month_num \<lparr>year = 2021, month = 2, day = 3\<rparr>"
    by (simp_all add: calendar_eval)
  have s: "generate_monthly_date_series \<lparr>year = 2020, month = 12, day = 15\<rparr>
       \<lparr>year = 2021, month = 2, day = 3\<rparr> =
     Inr [\<lparr>year = 2020, month = 12, day = 31\<rparr>, \<lparr>year = 2021, month = 1, day = 31\<rparr>,
          \<lparr>year = 2021, month = 2, day = 28\<rparr>]"
    by (simp add: calendar_eval upt_conv_Cons)
  from generate_monthly_date_series_correct [OF a b le] s show ?thesis
    by (auto simp: number_of_months_diff_def year_month_num_def)
qed

section \<open>Claims about the constructor\<close>

text \<open>
  C4, as stated, fails when the interval between deployments is 0: the three date checks
  pass, the committed capital is not positive, and yet no ClosedEndFundError is raised; the
  divisibility check itself raises ZeroDivisionError.
\<close>

theorem ClosedEndFund_init_zero_interval_not_ClosedEndFundError:
  "ClosedEndFund_init
     (fund1\<lparr>number_of_months_in_between_deployments := 0, committed_capital := - 1\<rparr>)
   = Inl ZeroDivisionError"
  by (simp add: ClosedEndFund_init_def fund1_def calendar_eval)

text \<open>
  C4 (amended).  The constructor makes its checks in the fixed order (a) the deployment
  start is not before the fund start, (b) the fund start is a month-end, (c) the deployment
  start is a month-end, (d) the months of deployment are a multiple of the interval, where
  computing the remainder raises ZeroDivisionError if the interval is 0, (e) the committed
  capital is positive.  The first check that fails decides the outcome, a ClosedEndFundError
  of its own for each check, and no fund is returned.  When all pass, the fund is returned
  with the dates the caller gave, which the normalisation to month-end leaves unchanged.  In
  particular a deployment start before the fund start raises ClosedEndFundError.
\<close>

theorem ClosedEndFund_init_validation_order:
  assumes "valid_date (fund_start_date args)" and "valid_date (deployment_start_date args)"
  shows "ClosedEndFund_init args =
     (if date_less (deployment_start_date args) (fund_start_date args)
      then Inl (ClosedEndFundError DeploymentBeforeFundStart)
      else if end_of_month_from_date (fund_start_date args) \<noteq> Inr (fund_start_date args)
      then Inl (ClosedEndFundError FundStartNotEndOfMonth)
      else if end_of_month_from_date (deployment_start_date args)
                \<noteq> Inr (deployment_start_date args)
      then Inl (ClosedEndFundError DeploymentStartNotEndOfMonth)
      else if number_of_months_in_between_deployments args = 0
      then Inl ZeroDivisionError
      else if number_of_months_of_deployment args
                mod number_of_months_in_between_deployments args \<noteq> 0
      then Inl (ClosedEndFundError NotWholeNumberOfDeployments)
      else if committed_capital args \<le> 0
      then Inl (ClosedEndFundError CommittedCapitalNotPositive)
      else Inr args)"
proof -
  obtain f d where f: "end_of_month_from_date (fund_start_date args) = Inr f"
    and d: "end_of_month_from_date (deployment_start_date args) = Inr d"
    using assms by (simp add: end_of_month_from_date_eq)
  show ?thesis
    by (simp add: ClosedEndFund_init_def f d)
qed

theorem ClosedEndFund_init_validation_order_witness:
  "ClosedEndFund_init (fund1\<lparr>number_of_months_in_between_deployments := 5\<rparr>)
     = Inl (ClosedEndFundError NotWholeNumberOfDeployments)
   \<and> ClosedEndFund_init
       (fund1\<lparr>deployment_start_date := \<lparr>year = 2021, month = 2, day = 28\<rparr>,
              fund_start_date := \<lparr>year = 2021, month = 3, day = 30\<rparr>,
              committed_capital := 0\<rparr>)
     = Inl (ClosedEndFundError DeploymentBeforeFundStart)
   \<and> ClosedEndFund_init fund1 = Inr fund1"
  using ClosedEndFund_init_validation_order [of "fund1\<lparr>number_of_months_in_between_deployments := 5\<rparr>"]
    ClosedEndFund_init_validation_order
      [of "fund1\<lparr>deployment_start_date := \<lparr>year = 2021, month = 2, day = 28\<rparr>,
              fund_start_date := \<lparr>year = 2021, month = 3, day = 30\<rparr>,
              committed_capital := 0\<rparr>"]
    ClosedEndFund_init_validation_order [of fund1]
  by (simp add: fund1_def calendar_eval)

text \<open>
  C8, as stated, fails when one of the three date checks fails: they come before the
  divisibility check, so that with an interval of 0 and a deployment start that is not a
  month-end the constructor raises ClosedEndFundError, not ZeroDivisionError.
\<close>

theorem ClosedEndFund_init_zero_interval_date_check_first:
  "ClosedEndFund_init
     (fund1\<lparr>number_of_months_in_between_deployments := 0,
            deployment_start_date := \<lparr>year = 2021, month = 6, day = 29\<rparr>\<rparr>)
   = Inl (ClosedEndFundError DeploymentStartNotEndOfMonth)"
  by (simp add: ClosedEndFund_init_def fund1_def calendar_eval)

text \<open>
  C8 (amended).  With an interval of 0 between deployments the constructor never returns a
  fund, and it raises ZeroDivisionError, from the divisibility check, exactly when the three
  date checks before it pass: the deployment start is not before the fund start, and both
  are month-end dates.  No ClosedEndFundError is raised for the zero interval itself.
\<close>

theorem ClosedEndFund_init_zero_interval:
  assumes "number_of_months_in_between_deployments args = 0"
  shows "(ClosedEndFund_init args = Inl ZeroDivisionError \<longleftrightarrow>
            \<not> date_less (deployment_start_date args) (fund_start_date args)
          \<and> end_of_month_from_date (fund_start_date args) = Inr (fund_start_date args)
          \<and> end_of_month_from_date (deployment_start_date args)
              = Inr (deployment_start_date args))
       \<and> (\<forall>self. ClosedEndFund_init args \<noteq> Inr self)"
proof -
  have e: "end_of_month_from_date dt \<noteq> Inl ZeroDivisionError" for dt
    by (simp add: end_of_month_from_date_def end_of_month_from_int_def datetime_date_def
        Let_def split: prod.splits)
  show ?thesis
    using assms e [of "fund_start_date args"] e [of "deployment_start_date args"]
    by (auto simp: ClosedEndFund_init_def split: sum.splits)
qed

theorem ClosedEndFund_init_zero_interval_witness:
  "ClosedEndFund_init (fund1\<lparr>number_of_months_in_between_deployments := 0\<rparr>)
     = Inl ZeroDivisionError"
  using ClosedEndFund_init_zero_interval [of "fund1\<lparr>number_of_months_in_between_deployments := 0\<rparr>"]
  by (simp add: fund1_def calendar_eval)

section \<open>Facts about loops, dicts and the constructor\<close>

lemma update_fresh: "k \<notin> fst ` set al \<Longrightarrow> AList.update k v al = al @ [(k, v)]"
  by (induction al) auto

lemma for_each_update_fresh:
  assumes "\<And>x s. x \<in> set xs \<Longrightarrow> body x s = Inr (AList.update (k x) (v x) s)"
    and "distinct (map k xs)"
    and "fst ` set s \<inter> k ` set xs = {}"
  shows "for_each body xs s = Inr (s @ map (\<lambda>x. (k x, v x)) xs)"
  using assms
proof (induction xs arbitrary: s)
  case Nil
  then show ?case by simp
next
  case (Cons x xs)
  have fresh: "k x \<notin> fst ` set s" using Cons.prems(3) by auto
  have step: "body x s = Inr (s @ [(k x, v x)])"
    using Cons.prems(1) [of x s] fresh by (simp add: update_fresh)
  have "for_each body xs (s @ [(k x, v x)]) = Inr ((s @ [(k x, v x)]) @ map (\<lambda>x. (k x, v x)) xs)"
  proof (rule Cons.IH)
    show "body y t = Inr (AList.update (k y) (v y) t)" if "y \<in> set xs" for y t
      using Cons.prems(1) that by simp
    show "distinct (map k xs)" using Cons.prems(2) by simp
    show "fst ` set (s @ [(k x, v x)]) \<inter> k ` set xs = {}"
      using Cons.prems(2,3) by auto
  qed
  then show ?case by (simp add: step)
qed

lemma int_of_quotient_exact:
  assumes "b \<noteq> 0" and "a mod b = 0"
  shows "int_of_quotient a b = a div b"
proof -
  define q where "q = a div b"
  have a: "a = q * b" using assms(2) div_mult_mod_eq [of a b] by (simp add: q_def)
  have 1: "\<bar>a\<bar> div \<bar>b\<bar> = \<bar>q\<bar>" using assms(1) by (simp add: a abs_mult)
  have "sgn a * sgn b = sgn q * (sgn b * sgn b)" by (simp add: a sgn_mult)
  also have "\<dots> = sgn q" using assms(1) by (simp add: sgn_mult_self_eq)
  finally have 2: "sgn a * sgn b = sgn q" .
  have "int_of_quotient a b = sgn q * \<bar>q\<bar>"
    by (simp only: int_of_quotient_def 1 2)
  then show ?thesis by (simp add: sgn_mult_abs q_def)
qed

lemma ClosedEndFund_init_Inr:
  assumes "ClosedEndFund_init args = Inr self"
  shows "self = args"
    and "valid_date (fund_start_date self)" and "valid_date (deployment_start_date self)"
    and "fund_start_date self = month_end_of (year_month_num (fund_start_date self))"
    and "deployment_start_date self = month_end_of (year_month_num (deployment_start_date self))"
    and "year_month_num (fund_start_date self) \<le> year_month_num (deployment_start_date self)"
    and "number_of_months_in_between_deployments self \<noteq> 0"
    and "number_of_months_of_deployment self mod number_of_months_in_between_deployments self = 0"
    and "0 < committed_capital self"
proof -
  from assms have nl: "\<not> date_less (deployment_start_date args) (fund_start_date args)"
    and f: "end_of_month_from_date (fund_start_date args) = Inr (fund_start_date args)"
    and d: "end_of_month_from_date (deployment_start_date args) = Inr (deployment_start_date args)"
    and rest: "number_of_months_in_between_deployments args \<noteq> 0"
      "number_of_months_of_deployment args mod number_of_months_in_between_deployments args = 0"
      "0 < committed_capital args"
    by (auto simp: ClosedEndFund_init_def split: if_splits sum.splits)
  from assms f d show eq: "self = args"
    by (auto simp: ClosedEndFund_init_def split: if_splits sum.splits)
  from f have rf: "representable (year_month_num (fund_start_date args))"
    and mf: "fund_start_date args = month_end_of (year_month_num (fund_start_date args))"
    by (auto simp: end_of_month_from_date_def end_of_month_from_int_eq split: if_splits)
  from d have rd: "representable (year_month_num (deployment_start_date args))"
    and md: "deployment_start_date args = month_end_of (year_month_num (deployment_start_date args))"
    by (auto simp: end_of_month_from_date_def end_of_month_from_int_eq split: if_splits)
  show "valid_date (fund_start_date self)"
    using valid_month_end_of [OF rf] mf eq by simp
  show "valid_date (deployment_start_date self)"
    using valid_month_end_of [OF rd] md eq by simp
  show "fund_start_date self = month_end_of (year_month_num (fund_start_date self))"
    using mf eq by simp
  show "deployment_start_date self = month_end_of (year_month_num (deployment_start_date self))"
    using md eq by simp
  show "year_month_num (fund_start_date self) \<le> year_month_num (deployment_start_date self)"
    using nl date_less_month_end_of
      [of "year_month_num (deployment_start_date args)" "year_month_num (fund_start_date args)"]
      mf md eq by simp
  show "number_of_months_in_between_deployments self \<noteq> 0"
    "number_of_months_of_deployment self mod number_of_months_in_between_deployments self = 0"
    "0 < committed_capital self"
    using rest eq by simp_all
qed

lemma py_range_0: "py_range 0 n = map int [0..<nat n]"
  by (simp add: py_range_def)

lemma shifted_month_representable:
  assumes "representable i" and "representable (i + (n - 1) * step)"
    and "0 \<le> x" and "x \<le> n - 1"
  shows "representable (i + x * step)"
proof (cases "0 \<le> step")
  case True
  have "0 \<le> x * step" using assms(3) True by simp
  moreover have "x * step \<le> (n - 1) * step" using assms(4) True by (rule mult_right_mono)
  ultimately show ?thesis using assms(1,2) by (simp add: representable_def)
next
  case False
  then have neg: "step \<le> 0" by simp
  have "x * step \<le> 0" using assms(3) neg by (simp add: mult_nonneg_nonpos)
  moreover have "(n - 1) * step \<le> x * step" using assms(4) neg by (rule mult_right_mono_neg)
  ultimately show ?thesis using assms(1,2) by (simp add: representable_def)
qed

lemma generate_deployments_eq:
  assumes v: "valid_date (deployment_start_date self)"
    and nz: "number_of_months_in_between_deployments self \<noteq> 0"
    and dv: "number_of_months_of_deployment self
               mod number_of_months_in_between_deployments self = 0"
    and pos: "0 < number_of_months_of_deployment self
               div number_of_months_in_between_deployments self"
    and rep: "representable (year_month_num (deployment_start_date self)
               + number_of_months_of_deployment self
               - number_of_months_in_between_deployments self)"
  shows "generate_deployments self =
     Inr (map (\<lambda>k. (month_end_of (year_month_num (deployment_start_date self)
                        + int k * number_of_months_in_between_deployments self),
                    committed_capital self
                      / of_int (number_of_months_of_deployment self
                          div number_of_months_in_between_deployments self)))
            [0..<nat (number_of_months_of_deployment self
                        div number_of_months_in_between_deployments self)])"
proof -
  define step where "step = number_of_months_in_between_deployments self"
  define n where "n = number_of_months_of_deployment self div step"
  define i where "i = year_month_num (deployment_start_date self)"
  define amount where "amount = committed_capital self / of_int n"
  define key where "key = (\<lambda>num. month_end_of (i + num * step))"
  define body where "body = (\<lambda>num deployments.
      case add_n_months (deployment_start_date self) (num * step) True of
        Inl e \<Rightarrow> Inl e
      | Inr dt \<Rightarrow> Inr (AList.update dt amount deployments))"
  have months: "number_of_months_of_deployment self = n * step"
    using dv div_mult_mod_eq [of "number_of_months_of_deployment self" step]
    by (simp add: n_def step_def)
  have q: "int_of_quotient (number_of_months_of_deployment self) step = n"
    using nz dv by (simp add: int_of_quotient_exact n_def step_def)
  have n: "0 < n" using pos by (simp add: n_def step_def)
  have ri: "representable i" using v by (simp add: i_def valid_date_representable)
  have rl: "representable (i + (n - 1) * step)"
    using rep by (simp add: months i_def algebra_simps flip: step_def)
  have unfold: "generate_deployments self = for_each body (py_range 0 n) []"
    unfolding body_def amount_def
    using nz n by (simp add: generate_deployments_def q Let_def flip: step_def)
  have "for_each body (py_range 0 n) [] = Inr ([] @ map (\<lambda>num. (key num, amount)) (py_range 0 n))"
  proof (rule for_each_update_fresh)
    fix x s assume "x \<in> set (py_range 0 n)"
    then have "0 \<le> x" "x \<le> n - 1" by (auto simp: py_range_0)
    then have "representable (i + x * step)"
      using ri rl by (simp add: shifted_month_representable)
    then show "body x s = Inr (AList.update (key x) amount s)"
      using v by (simp add: body_def add_n_months_True end_of_month_from_int_eq key_def i_def)
  next
    have "inj key"
      using nz by (auto simp: inj_def key_def month_end_of_inj step_def)
    moreover have "distinct (py_range 0 n)"
      by (simp add: py_range_0 distinct_map inj_on_def)
    ultimately show "distinct (map key (py_range 0 n))"
      by (simp add: distinct_map inj_on_def inj_def)
  next
    show "fst ` set [] \<inter> key ` set (py_range 0 n) = {}" by simp
  qed
  then show ?thesis
    by (simp add: unfold py_range_0 comp_def key_def amount_def n_def i_def step_def)
qed

lemma twelfth_root_power:
  assumes "0 \<le> r" and "x = r ^ 12"
  shows "twelfth_root x = PyFloat r"
proof (cases "r = 0")
  case True
  with assms show ?thesis by (simp add: twelfth_root_def)
next
  case False
  with assms have r: "0 < r" by simp
  have "r powr 12 = r ^ 12" using r by simp
  then have "(r ^ 12) powr (1 / 12) = (r powr 12) powr (1 / 12)" by (simp only:)
  also have "\<dots> = r powr (12 * (1 / 12))" by (rule powr_powr)
  also have "\<dots> = r" using r by simp
  finally have "(r ^ 12) powr (1 / 12) = r" .
  moreover have "\<not> x < 0" using assms by simp
  ultimately show ?thesis using assms(2) by (simp only: twelfth_root_def if_False)
qed

lemma twelfth_root_4096: "twelfth_root 4096 = PyFloat 2"
  by (rule twelfth_root_power) simp_all

lemma twelfth_root_531441: "twelfth_root (531441 / 4096) = PyFloat (3 / 2)"
  by (rule twelfth_root_power) (simp_all add: power_divide)

lemmas small_fund_eval = small_fund_def calendar_eval ClosedEndFund_init_def
  generate_deployments_def int_of_quotient_def upt_conv_Cons

lemma small_fund_init: "ClosedEndFund_init small_fund = Inr small_fund"
  by (simp add: small_fund_eval)

lemma small_fund_deployments:
  "generate_deployments small_fund =
     Inr [(\<lparr>year = 2021, month = 2, day = 28\<rparr>, 50),
          (\<lparr>year = 2021, month = 3, day = 31\<rparr>, 50)]"
  by (simp add: small_fund_eval)


section \<open>Claims about the deployments\<close>

text \<open>
  C2, as stated, fails in three ways.  The keys are computed with the default
  \<open>end_of_month=True\<close> of \<open>add_n_months\<close>: the second deployment of a fund that starts
  deploying on 2021-02-28 is keyed at 2021-03-31, not at 2021-03-28.  A fund with 0 months of
  deployment passes the constructor, and \<open>generate_deployments\<close> raises ZeroDivisionError.
  A fund whose deployments run past December 9999 passes the constructor, and
  \<open>generate_deployments\<close> raises ValueError.
\<close>

theorem generate_deployments_not_as_stated:
  "generate_deployments small_fund =
     Inr [(\<lparr>year = 2021, month = 2, day = 28\<rparr>, 50),
          (\<lparr>year = 2021, month = 3, day = 31\<rparr>, 50)]
   \<and> add_n_months (deployment_start_date small_fund)
         (1 * number_of_months_in_between_deployments small_fund) False
       = Inr \<lparr>year = 2021, month = 3, day = 28\<rparr>
   \<and> ClosedEndFund_init (small_fund\<lparr>number_of_months_of_deployment := 0\<rparr>)
       = Inr (small_fund\<lparr>number_of_months_of_deployment := 0\<rparr>)
   \<and> generate_deployments (small_fund\<lparr>number_of_months_of_deployment := 0\<rparr>)
       = Inl ZeroDivisionError
   \<and> ClosedEndFund_init
         (small_fund\<lparr>deployment_start_date := \<lparr>year = 9999, month = 12, day = 31\<rparr>\<rparr>)
       = Inr (small_fund\<lparr>deployment_start_date := \<lparr>year = 9999, month = 12, day = 31\<rparr>\<rparr>)
   \<and> generate_deployments
         (small_fund\<lparr>deployment_start_date := \<lparr>year = 9999, month = 12, day = 31\<rparr>\<rparr>)
       = Inl ValueError"
  by (intro conjI; simp add: small_fund_eval)

text \<open>
  C2 (amended).  For every fund that the constructor accepts, with at least one deployment
  (\<open>months_of_deployment / interval_months \<ge> 1\<close>) and whose last deployment month lies
  within the years 1 to 9999, \<open>generate_deployments\<close> returns exactly
  \<open>months_of_deployment / interval_months\<close> entries, each of value
  \<open>committed_capital / num_deployments\<close>; the \<open>k\<close>-th entry is keyed at
  \<open>add_n_months(deployment_start, k * interval_months)\<close> with the default
  \<open>end_of_month=True\<close>, the keys are distinct, and the values sum to the committed capital.
\<close>

theorem generate_deployments_correct:
  assumes "ClosedEndFund_init args = Inr self"
    and "0 < number_of_months_of_deployment self
             div number_of_months_in_between_deployments self"
    and "representable (year_month_num (deployment_start_date self)
             + number_of_months_of_deployment self
             - number_of_months_in_between_deployments self)"
  shows "\<exists>deployments. generate_deployments self = Inr deployments
     \<and> int (length deployments)
         = number_of_months_of_deployment self div number_of_months_in_between_deployments self
     \<and> (\<forall>k < length deployments.
           add_n_months (deployment_start_date self)
             (int k * number_of_months_in_between_deployments self) True
             = Inr (fst (deployments ! k))
         \<and> snd (deployments ! k)
             = committed_capital self
                 / of_int (number_of_months_of_deployment self
                     div number_of_months_in_between_deployments self))
     \<and> distinct (map fst deployments)
     \<and> sum_list (map snd deployments) = committed_capital self"
proof -
  define step where "step = number_of_months_in_between_deployments self"
  define n where "n = number_of_months_of_deployment self div step"
  define i where "i = year_month_num (deployment_start_date self)"
  define amount where "amount = committed_capital self / of_int n"
  define deps where "deps = map (\<lambda>k. (month_end_of (i + int k * step), amount)) [0..<nat n]"
  note init = ClosedEndFund_init_Inr [OF assms(1)]
  have n: "0 < n" using assms(2) by (simp add: n_def step_def)
  have months: "number_of_months_of_deployment self = n * step"
    using init(8) div_mult_mod_eq [of "number_of_months_of_deployment self" step]
    by (simp add: n_def step_def)
  have ri: "representable i" using init(3) by (simp add: i_def valid_date_representable)
  have rl: "representable (i + (n - 1) * step)"
    using assms(3) by (simp add: months i_def algebra_simps flip: step_def)
  have 1: "generate_deployments self = Inr deps"
    using generate_deployments_eq [OF init(3) init(7) init(8) assms(2) assms(3)]
    by (simp add: deps_def amount_def n_def i_def step_def)
  have 2: "int (length deps) = n" using n by (simp add: deps_def)
  have 3: "add_n_months (deployment_start_date self) (int k * step) True = Inr (fst (deps ! k))
      \<and> snd (deps ! k) = amount" if "k < length deps" for k
  proof -
    from that have k: "k < nat n" by (simp add: deps_def)
    then have "0 \<le> int k" "int k \<le> n - 1" by simp_all
    then have "representable (i + int k * step)"
      by (rule shifted_month_representable [OF ri rl])
    then show ?thesis
      using init(3) k by (simp add: add_n_months_True end_of_month_from_int_eq deps_def i_def)
  qed
  have "inj (\<lambda>k. month_end_of (i + int k * step))"
    using init(7) by (auto simp: inj_def month_end_of_inj step_def)
  then have 4: "distinct (map fst deps)"
    by (simp add: deps_def comp_def distinct_map inj_on_def inj_def)
  have "sum_list (map snd deps) = of_nat (nat n) * amount"
    by (simp add: deps_def comp_def sum_list_triv)
  also have "\<dots> = committed_capital self"
    using n by (simp add: amount_def)
  finally have 5: "sum_list (map snd deps) = committed_capital self" .
  from 1 2 3 4 5 show ?thesis
    unfolding n_def step_def amount_def by blast
qed


theorem generate_deployments_correct_witness:
  "generate_deployments small_fund =
     Inr [(\<lparr>year = 2021, month = 2, day = 28\<rparr>, 50),
          (\<lparr>year = 2021, month = 3, day = 31\<rparr>, 50)]
   \<and> add_n_months (deployment_start_date small_fund)
         (1 * number_of_months_in_between_deployments small_fund) True
       = Inr \<lparr>year = 2021, month = 3, day = 31\<rparr>
   \<and> sum_list (map snd [(\<lparr>year = 2021, month = 2, day = 28\<rparr>, 50 :: real),
          (\<lparr>year = 2021, month = 3, day = 31\<rparr>, 50)]) = committed_capital small_fund"
proof -
  have pos: "0 < number_of_months_of_deployment small_fund
             div number_of_months_in_between_deployments small_fund"
    by (simp add: small_fund_def)
  have rep: "representable (year_month_num (deployment_start_date small_fund)
             + number_of_months_of_deployment small_fund
             - number_of_months_in_between_deployments small_fund)"
    by (simp add: small_fund_def representable_def year_month_num_def)
  from generate_deployments_correct [OF small_fund_init pos rep]
  obtain deployments where d: "generate_deployments small_fund = Inr deployments"
    and k: "\<forall>k < length deployments.
           add_n_months (deployment_start_date small_fund)
             (int k * number_of_months_in_between_deployments small_fund) True
             = Inr (fst (deployments ! k))"
    and s: "sum_list (map snd deployments) = committed_capital small_fund"
    by blast
  from d have eq: "deployments = [(\<lparr>year = 2021, month = 2, day = 28\<rparr>, 50),
          (\<lparr>year = 2021, month = 3, day = 31\<rparr>, 50)]"
    by (simp add: small_fund_deployments)
  have "add_n_months (deployment_start_date small_fund)
             (int 1 * number_of_months_in_between_deployments small_fund) True
             = Inr (fst (deployments ! 1))"
    by (rule k [rule_format]) (simp add: eq)
  then have "add_n_months (deployment_start_date small_fund)
             (1 * number_of_months_in_between_deployments small_fund) True
       = Inr \<lparr>year = 2021, month = 3, day = 31\<rparr>"
    by (simp add: eq)
  with d s show ?thesis by (simp add: eq)
qed

section \<open>Facts about numbers\<close>

lemma is_numpy_mk_num [simp]: "is_numpy (mk_num np cx z) = np"
  by (simp add: mk_num_def)

lemma is_complex_mk_num [simp]: "is_complex (mk_num np cx z) = cx"
  by (simp add: mk_num_def)

lemma cval_mk_num: "cval (mk_num np cx z) = (if cx then z else of_real (Re z))"
  by (simp add: mk_num_def)

lemma cval_real_kind: "\<not> is_complex a \<Longrightarrow> cval a = of_real (Re (cval a))"
  by (cases a) simp_all

lemma is_numpy_binop [simp]:
  "is_numpy (py_add a b) = (is_numpy a \<or> is_numpy b)"
  "is_numpy (py_sub a b) = (is_numpy a \<or> is_numpy b)"
  "is_numpy (py_mul a b) = (is_numpy a \<or> is_numpy b)"
  "is_numpy (py_div a b) = (is_numpy a \<or> is_numpy b)"
  by (simp_all add: py_add_def py_sub_def py_mul_def py_div_def binop_def)

lemma is_complex_binop [simp]:
  "is_complex (py_add a b) = (is_complex a \<or> is_complex b)"
  "is_complex (py_sub a b) = (is_complex a \<or> is_complex b)"
  "is_complex (py_mul a b) = (is_complex a \<or> is_complex b)"
  "is_complex (py_div a b) = (is_complex a \<or> is_complex b)"
  by (simp_all add: py_add_def py_sub_def py_mul_def py_div_def binop_def)

lemma cval_py_add [simp]: "cval (py_add a b) = cval a + cval b"
  by (cases a; cases b) (simp_all add: py_add_def binop_def mk_num_def)

lemma cval_py_sub [simp]: "cval (py_sub a b) = cval a - cval b"
  by (cases a; cases b) (simp_all add: py_sub_def binop_def mk_num_def)

lemma cval_py_mul [simp]: "cval (py_mul a b) = cval a * cval b"
  by (cases a; cases b) (simp_all add: py_mul_def binop_def mk_num_def)

lemma cval_py_div [simp]: "cval (py_div a b) = cval a / cval b"
  by (cases a; cases b) (simp_all add: py_div_def binop_def mk_num_def)

lemma lex_less_irrefl [simp]: "\<not> lex_less z z"
  by (simp add: lex_less_def)

lemma lex_less_asym: "lex_less z w \<Longrightarrow> \<not> lex_less w z"
  by (auto simp: lex_less_def)

lemma lex_less_linear: "lex_less z w \<or> z = w \<or> lex_less w z"
  by (auto simp: lex_less_def complex_eq_iff)

lemma lex_less_diff: "lex_less (z - w) 0 \<longleftrightarrow> lex_less z w"
  by (auto simp: lex_less_def)

lemma lex_less_add_left: "lex_less (u + z) w \<longleftrightarrow> lex_less z (w - u)"
  by (auto simp: lex_less_def)

lemma lex_less_of_real [simp]: "lex_less (of_real x) (of_real y) \<longleftrightarrow> x < y"
  by (simp add: lex_less_def)

lemma py_lt_Inr: "py_lt a b = Inr r \<Longrightarrow> r = lex_less (cval a) (cval b)"
  by (auto simp: py_lt_def split: if_splits)

lemma py_gt_Inr: "py_gt a b = Inr r \<Longrightarrow> r = lex_less (cval b) (cval a)"
  by (auto simp: py_gt_def dest: py_lt_Inr)

lemma py_min_Inr: "py_min a b = Inr m \<Longrightarrow> m = (if lex_less (cval b) (cval a) then b else a)"
  by (auto simp: py_min_def split: sum.splits dest: py_lt_Inr)

lemma py_lt_total: "is_numpy a \<or> is_numpy b \<or> (\<not> is_complex a \<and> \<not> is_complex b)
    \<Longrightarrow> py_lt a b = Inr (lex_less (cval a) (cval b))"
  by (auto simp: py_lt_def)

section \<open>Facts about the waterfall\<close>

lemma for_each_preserves:
  assumes "for_each body xs s = Inr t"
    and "\<And>x u w. x \<in> set xs \<Longrightarrow> body x u = Inr w \<Longrightarrow> P u \<Longrightarrow> P w"
    and "P s"
  shows "P t"
  using assms
proof (induction xs arbitrary: s)
  case Nil
  then show ?case by simp
next
  case (Cons x xs)
  from Cons.prems(1) obtain u where u: "body x s = Inr u" and rest: "for_each body xs u = Inr t"
    by (auto split: sum.splits)
  have "P u" using Cons.prems(2) [of x s u] u Cons.prems(3) by simp
  show ?case
  proof (rule Cons.IH [OF rest])
    show "P w" if "z \<in> set xs" "body z v = Inr w" "P v" for z v w
      using Cons.prems(2) [of z v w] that by simp
    show "P u" by fact
  qed
qed

lemma for_each_pointwise:
  assumes "for_each body xs s = Inr t"
    and est: "\<And>x u w. x \<in> set xs \<Longrightarrow> body x u = Inr w \<Longrightarrow> P x w"
    and pres: "\<And>x y u w. x \<in> set xs \<Longrightarrow> body x u = Inr w \<Longrightarrow> y \<noteq> x \<Longrightarrow> P y u \<Longrightarrow> P y w"
    and "y \<in> set xs"
  shows "P y t"
  using assms(1,4) est pres
proof (induction xs arbitrary: s)
  case Nil
  then show ?case by simp
next
  case (Cons x xs)
  from Cons.prems(1) obtain u where u: "body x s = Inr u" and rest: "for_each body xs u = Inr t"
    by (auto split: sum.splits)
  show ?case
  proof (cases "y \<in> set xs")
    case True
    show ?thesis
    proof (rule Cons.IH [OF rest True])
      show "P z w" if "z \<in> set xs" "body z v = Inr w" for z v w
        using that Cons.prems(3) [of z v w] by simp
      show "P b w" if "z \<in> set xs" "body z v = Inr w" "b \<noteq> z" "P b v" for z b v w
        using that Cons.prems(4) [of z v w b] by simp
    qed
  next
    case False
    with Cons.prems(2) have yx: "y = x" by simp
    have "P y u" using Cons.prems(3) [of x s u] u yx by simp
    show ?thesis
    proof (rule for_each_preserves [where P = "P y", OF rest])
      show "P y u" by fact
    next
      fix z v w assume z: "z \<in> set xs" "body z v = Inr w" "P y v"
      show "P y w"
      proof (cases "y = z")
        case True
        then show ?thesis using Cons.prems(3) [of z v w] z by simp
      next
        case False
        then show ?thesis using Cons.prems(4) [of z v w y] z by simp
      qed
    qed
  qed
qed

lemma allocation_step_Inr:
  assumes "allocation_step self deployments proceeds dt s = Inr t"
  shows "\<exists>prior. add_n_months dt (- 1) True = Inr prior" and "carry_percent self \<noteq> 1 / 2"
proof -
  from assms show "\<exists>prior. add_n_months dt (- 1) True = Inr prior"
    unfolding allocation_step_def Let_def
    by (cases "add_n_months dt (- 1) True") simp_all
  then obtain prior where prior: "add_n_months dt (- 1) True = Inr prior" by blast
  note step1 = assms [unfolded allocation_step_def Let_def prior sum.case]
  from step1 obtain lpay where lpay: "py_min (dict_get proceeds dt (PyFloat 0))
                (py_add (py_add (dict_get (lp_preferred_closing s) prior (PyFloat 0))
                   (py_mul (dict_get (lp_preferred_closing s) prior (PyFloat 0))
                      (irr_hurdle_per_month self)))
                   (PyFloat (dict_get deployments dt 0))) = Inr lpay"
    by (auto split: sum.splits)
  note step2 = step1 [unfolded lpay sum.case]
  from step2 show "carry_percent self \<noteq> 1 / 2"
    by (auto split: if_splits)
qed

lemma allocation_step_row:
  assumes step: "allocation_step self deployments proceeds dt s = Inr t"
    and prior: "add_n_months dt (- 1) True = Inr prior"
  shows "waterfall_row self (dict_get deployments dt 0) (dict_get proceeds dt (PyFloat 0))
            (dict_get (lp_preferred_closing s) prior (PyFloat 0))
            (dict_get (catch_up_closing s) prior (PyFloat 0)) t dt"
proof -
  define proceed where "proceed = dict_get proceeds dt (PyFloat 0)"
  define lo where "lo = dict_get (lp_preferred_closing s) prior (PyFloat 0)"
  define co where "co = dict_get (catch_up_closing s) prior (PyFloat 0)"
  define dep where "dep = dict_get deployments dt 0"
  define lg where "lg = py_mul lo (irr_hurdle_per_month self)"
  define due where "due = py_add (py_add lo lg) (PyFloat dep)"
  define ca where "ca = py_mul
                 (py_mul lg (PyFloat (carry_percent self / (0.5 - carry_percent self) * 0.5)))
                 (PyFloat (if carry_catch_up self then 1 else 0))"
  note step1 = step [unfolded allocation_step_def Let_def prior sum.case,
      folded proceed_def lo_def co_def dep_def, folded lg_def, folded due_def ca_def]
  from step1 obtain lpay where lpay: "py_min proceed due = Inr lpay"
    by (cases "py_min proceed due") simp_all
  note step2 = step1 [unfolded lpay sum.case]
  have carry: "\<not> 0.5 - carry_percent self = 0"
    using step2 by (cases "0.5 - carry_percent self = 0") simp_all
  note step3 = step2 [unfolded if_not_P [OF carry]]
  from step3 obtain surplus where gt: "py_gt proceed lpay = Inr surplus"
    by (cases "py_gt proceed lpay") simp_all
  note step4 = step3 [unfolded gt sum.case]
  have "waterfall_row self dep proceed lo co t dt"
  proof (cases surplus)
    case False
    note step5 = step4 [unfolded if_not_P [OF False]]
    show ?thesis
      unfolding waterfall_row_def Let_def lg_def [symmetric]
      unfolding due_def [symmetric] ca_def [symmetric]
      unfolding lpay gt sum.case if_not_P [OF False]
      using step5 by (auto simp: update_conv')
  next
    case True
    note step5 = step4 [unfolded if_P [OF True]]
    from step5 obtain cp
      where cp: "py_min (py_div (py_add co ca) (PyFloat 0.5)) (py_sub proceed lpay) = Inr cp"
      by (cases "py_min (py_div (py_add co ca) (PyFloat 0.5)) (py_sub proceed lpay)") simp_all
    note step6 = step5 [unfolded cp sum.case]
    from step6 obtain remainder where rem: "py_gt proceed (py_add lpay cp) = Inr remainder"
      by (cases "py_gt proceed (py_add lpay cp)") simp_all
    note step7 = step6 [unfolded rem sum.case]
    show ?thesis
    proof (cases remainder)
      case False
      note step8 = step7 [unfolded if_not_P [OF False]]
      show ?thesis
        unfolding waterfall_row_def Let_def lg_def [symmetric]
        unfolding due_def [symmetric] ca_def [symmetric]
        unfolding lpay gt sum.case if_P [OF True] cp rem if_not_P [OF False]
        using step8 by (auto simp: update_conv')
    next
      case rTrue: True
      note step8 = step7 [unfolded if_P [OF rTrue]]
      show ?thesis
        unfolding waterfall_row_def Let_def lg_def [symmetric]
        unfolding due_def [symmetric] ca_def [symmetric]
        unfolding lpay gt sum.case if_P [OF True] cp rem if_P [OF rTrue]
        using step8 by (auto simp: update_conv')
    qed
  qed
  then show ?thesis
    unfolding proceed_def lo_def co_def dep_def .
qed


lemma allocation_step_elsewhere:
  assumes step: "allocation_step self deployments proceeds dt s = Inr t"
    and other: "y \<noteq> dt"
  shows "map_of (lp_preferred_opening t) y = map_of (lp_preferred_opening s) y
     \<and> map_of (lp_preferred_irr_growth t) y = map_of (lp_preferred_irr_growth s) y
     \<and> map_of (lp_preferred_payments t) y = map_of (lp_preferred_payments s) y
     \<and> map_of (lp_preferred_closing t) y = map_of (lp_preferred_closing s) y
     \<and> map_of (catch_up_opening t) y = map_of (catch_up_opening s) y
     \<and> map_of (catch_up_accruals t) y = map_of (catch_up_accruals s) y
     \<and> map_of (catch_up_payments_gp_share t) y = map_of (catch_up_payments_gp_share s) y
     \<and> map_of (catch_up_payments_lp_share t) y = map_of (catch_up_payments_lp_share s) y
     \<and> map_of (catch_up_closing t) y = map_of (catch_up_closing s) y
     \<and> map_of (post_catch_up_payments_gp_share t) y = map_of (post_catch_up_payments_gp_share s) y
     \<and> map_of (post_catch_up_payments_lp_share t) y = map_of (post_catch_up_payments_lp_share s) y"
proof -
  from allocation_step_Inr(1) [OF step] obtain prior
    where prior: "add_n_months dt (- 1) True = Inr prior" by blast
  define proceed where "proceed = dict_get proceeds dt (PyFloat 0)"
  define lo where "lo = dict_get (lp_preferred_closing s) prior (PyFloat 0)"
  define co where "co = dict_get (catch_up_closing s) prior (PyFloat 0)"
  define dep where "dep = dict_get deployments dt 0"
  define lg where "lg = py_mul lo (irr_hurdle_per_month self)"
  define due where "due = py_add (py_add lo lg) (PyFloat dep)"
  define ca where "ca = py_mul
                 (py_mul lg (PyFloat (carry_percent self / (0.5 - carry_percent self) * 0.5)))
                 (PyFloat (if carry_catch_up self then 1 else 0))"
  note step1 = step [unfolded allocation_step_def Let_def prior sum.case,
      folded proceed_def lo_def co_def dep_def, folded lg_def, folded due_def ca_def]
  from step1 obtain lpay where lpay: "py_min proceed due = Inr lpay"
    by (cases "py_min proceed due") simp_all
  note step2 = step1 [unfolded lpay sum.case]
  have carry: "\<not> 0.5 - carry_percent self = 0"
    using step2 by (cases "0.5 - carry_percent self = 0") simp_all
  note step3 = step2 [unfolded if_not_P [OF carry]]
  from step3 obtain surplus where gt: "py_gt proceed lpay = Inr surplus"
    by (cases "py_gt proceed lpay") simp_all
  note step4 = step3 [unfolded gt sum.case]
  show ?thesis
  proof (cases surplus)
    case False
    note step5 = step4 [unfolded if_not_P [OF False]]
    show ?thesis
      using step5 other by (auto simp: update_conv')
  next
    case True
    note step5 = step4 [unfolded if_P [OF True]]
    from step5 obtain cp
      where cp: "py_min (py_div (py_add co ca) (PyFloat 0.5)) (py_sub proceed lpay) = Inr cp"
      by (cases "py_min (py_div (py_add co ca) (PyFloat 0.5)) (py_sub proceed lpay)") simp_all
    note step6 = step5 [unfolded cp sum.case]
    from step6 obtain remainder where rem: "py_gt proceed (py_add lpay cp) = Inr remainder"
      by (cases "py_gt proceed (py_add lpay cp)") simp_all
    note step7 = step6 [unfolded rem sum.case]
    show ?thesis
    proof (cases remainder)
      case False
      note step8 = step7 [unfolded if_not_P [OF False]]
      show ?thesis
        using step8 other by (auto simp: update_conv')
    next
      case rTrue: True
      note step8 = step7 [unfolded if_P [OF rTrue]]
      show ?thesis
        using step8 other by (auto simp: update_conv')
    qed
  qed
qed

lemma allocation_step_other:
  assumes step: "allocation_step self deployments proceeds dt s = Inr t"
    and other: "y \<noteq> dt"
  shows "map_of (lp_preferred_opening t) y = map_of (lp_preferred_opening s) y"
    and "map_of (lp_preferred_irr_growth t) y = map_of (lp_preferred_irr_growth s) y"
    and "map_of (lp_preferred_payments t) y = map_of (lp_preferred_payments s) y"
    and "map_of (lp_preferred_closing t) y = map_of (lp_preferred_closing s) y"
    and "map_of (catch_up_opening t) y = map_of (catch_up_opening s) y"
    and "map_of (catch_up_accruals t) y = map_of (catch_up_accruals s) y"
    and "map_of (catch_up_payments_gp_share t) y = map_of (catch_up_payments_gp_share s) y"
    and "map_of (catch_up_payments_lp_share t) y = map_of (catch_up_payments_lp_share s) y"
    and "map_of (catch_up_closing t) y = map_of (catch_up_closing s) y"
    and "map_of (post_catch_up_payments_gp_share t) y = map_of (post_catch_up_payments_gp_share s) y"
    and "map_of (post_catch_up_payments_lp_share t) y = map_of (post_catch_up_payments_lp_share s) y"
  using allocation_step_elsewhere [OF step other] by blast+

lemma waterfall_row_other:
  assumes "allocation_step self deployments proceeds dt s = Inr t" and "y \<noteq> dt"
    and "waterfall_row self dep proceed lo co s y"
  shows "waterfall_row self dep proceed lo co t y"
  using assms(3) unfolding waterfall_row_def Let_def allocation_step_other [OF assms(1,2)] .

lemma allocations_rows:
  assumes alloc: "generate_proceeds_allocations_as_dict self = Inr s"
    and deps: "generate_deployments self = Inr deployments"
    and pr: "generate_proceeds self = Inr proceeds"
    and dates: "monthly_date_series self = Inr dates"
    and d: "d \<in> set dates"
  shows "\<exists>lo co. waterfall_row self (dict_get deployments d 0) (dict_get proceeds d (PyFloat 0))
            lo co s d"
proof -
  from alloc have loop:
    "for_each (allocation_step self deployments proceeds) dates empty_schedules = Inr s"
    by (simp add: generate_proceeds_allocations_as_dict_def deps pr dates split: sum.splits)
  define P where "P = (\<lambda>y t. \<exists>lo co.
      waterfall_row self (dict_get deployments y 0) (dict_get proceeds y (PyFloat 0)) lo co t y)"
  have "P d s"
  proof (rule for_each_pointwise [where P = P, OF loop _ _ d])
    fix x u w assume step: "allocation_step self deployments proceeds x u = Inr w"
    from allocation_step_Inr(1) [OF step] obtain prior
      where "add_n_months x (- 1) True = Inr prior" by blast
    from allocation_step_row [OF step this] show "P x w"
      unfolding P_def by blast
  next
    fix x y u w
    assume step: "allocation_step self deployments proceeds x u = Inr w"
      and "y \<noteq> x" and "P y u"
    then show "P y w"
      unfolding P_def using waterfall_row_other [OF step] by blast
  qed
  then show ?thesis by (simp add: P_def)
qed

lemma waterfall_row_payments:
  assumes row: "waterfall_row self dep proceed lo co t dt"
  shows "\<exists>lpay gp lp pg pl.
        map_of (lp_preferred_payments t) dt = Some lpay
      \<and> map_of (catch_up_payments_gp_share t) dt = Some gp
      \<and> map_of (catch_up_payments_lp_share t) dt = Some lp
      \<and> map_of (post_catch_up_payments_gp_share t) dt = Some pg
      \<and> map_of (post_catch_up_payments_lp_share t) dt = Some pl
      \<and> cval lpay + cval gp + cval lp + cval pg + cval pl = cval proceed"
proof -
  define lg where "lg = py_mul lo (irr_hurdle_per_month self)"
  define due where "due = py_add (py_add lo lg) (PyFloat dep)"
  define ca where "ca = py_mul
                 (py_mul lg (PyFloat (carry_percent self / (0.5 - carry_percent self) * 0.5)))
                 (PyFloat (if carry_catch_up self then 1 else 0))"
  define x where "x = py_div (py_add co ca) (PyFloat 0.5)"
  note row1 = row [unfolded waterfall_row_def Let_def, folded lg_def, folded due_def ca_def,
      folded x_def]
  from row1 obtain lpay where lpay: "py_min proceed due = Inr lpay"
    by (cases "py_min proceed due") simp_all
  note row2 = row1 [unfolded lpay sum.case]
  from row2 obtain surplus where gt: "py_gt proceed lpay = Inr surplus"
    by (cases "py_gt proceed lpay") simp_all
  note row3 = row2 [unfolded gt sum.case]
  note lpay_eq = py_min_Inr [OF lpay]
  note surplus_eq = py_gt_Inr [OF gt]
  from row3 have pay: "map_of (lp_preferred_payments t) dt = Some lpay" by simp
  show ?thesis
  proof (cases surplus)
    case False
    note row4 = row3 [unfolded if_not_P [OF False]]
    have "cval lpay = cval proceed"
      using False surplus_eq lpay_eq by (auto split: if_splits)
    with row4 pay show ?thesis by simp
  next
    case True
    note row4 = row3 [unfolded if_P [OF True]]
    from row4 obtain cp where cp: "py_min x (py_sub proceed lpay) = Inr cp"
      by (cases "py_min x (py_sub proceed lpay)") simp_all
    note row5 = row4 [unfolded cp sum.case]
    from row5 obtain remainder where rem: "py_gt proceed (py_add lpay cp) = Inr remainder"
      by (cases "py_gt proceed (py_add lpay cp)") simp_all
    note row6 = row5 [unfolded rem sum.case]
    note cp_eq = py_min_Inr [OF cp]
    note rem_eq = py_gt_Inr [OF rem]
    show ?thesis
    proof (cases remainder)
      case rTrue: True
      note row7 = row6 [unfolded if_P [OF rTrue]]
      have "cval lpay + cval (py_mul cp (PyFloat 0.5)) + cval (py_mul cp (PyFloat 0.5))
          + cval (py_mul (py_sub (py_sub proceed lpay) cp) (PyFloat (carry_percent self)))
          + cval (py_mul (py_sub (py_sub proceed lpay) cp) (PyFloat (1 - carry_percent self)))
          = cval proceed"
        by (simp add: algebra_simps)
      with row7 pay show ?thesis by blast
    next
      case False
      note row7 = row6 [unfolded if_not_P [OF False]]
      have "cval cp = cval proceed - cval lpay"
      proof (cases "lex_less (cval (py_sub proceed lpay)) (cval x)")
        case True
        with cp_eq show ?thesis by simp
      next
        case nl: False
        with cp_eq have cpx: "cp = x" by simp
        from False rem_eq have "\<not> lex_less (cval lpay + cval x) (cval proceed)"
          by (simp add: cpx)
        then have "\<not> lex_less (cval x) (cval proceed - cval lpay)"
          by (simp add: lex_less_add_left)
        with nl lex_less_linear [of "cval x" "cval proceed - cval lpay"]
        show ?thesis by (simp add: cpx)
      qed
      then have "cval lpay + cval (py_mul cp (PyFloat 0.5)) + cval (py_mul cp (PyFloat 0.5))
          + cval (PyFloat 0) + cval (PyFloat 0) = cval proceed"
        by simp
      with row7 pay show ?thesis by blast
    qed
  qed
qed

lemmas pynum_eval = py_add_def py_sub_def py_mul_def py_div_def binop_def mk_num_def
  py_lt_def py_gt_def py_min_def lex_less_def

lemma small_fund_fields:
  "fund_start_date small_fund = \<lparr>year = 2021, month = 1, day = 31\<rparr>"
  "deployment_start_date small_fund = \<lparr>year = 2021, month = 2, day = 28\<rparr>"
  "annual_effective_irr small_fund = 4095"
  "committed_capital small_fund = 100"
  "annual_mgmt_fee_rate small_fund = 0.005"
  "carry_percent small_fund = 0.2"
  "annual_effective_irr_hurdle small_fund = 527345 / 4096"
  "number_of_months_of_deployment small_fund = 2"
  "number_of_months_in_between_deployments small_fund = 1"
  "length_of_deployment_in_months small_fund = 1"
  "carry_catch_up small_fund = True"
  by (simp_all add: small_fund_def)

lemma small_fund_irr_per_month: "irr_per_month small_fund = PyFloat 1"
  by (simp add: irr_per_month_def small_fund_fields twelfth_root_4096 pynum_eval)

lemma small_fund_irr_hurdle_per_month: "irr_hurdle_per_month small_fund = PyFloat (1 / 2)"
proof -
  have "1 + annual_effective_irr_hurdle small_fund = 531441 / 4096"
    by (simp add: small_fund_fields)
  then show ?thesis
    by (simp only: irr_hurdle_per_month_def twelfth_root_531441) (simp add: pynum_eval)
qed

lemma small_fund_proceeds:
  "generate_proceeds small_fund =
     Inr [(\<lparr>year = 2021, month = 3, day = 31\<rparr>, NpFloat64 100),
          (\<lparr>year = 2021, month = 4, day = 30\<rparr>, NpFloat64 100)]"
  by (simp add: generate_proceeds_def small_fund_deployments small_fund_irr_per_month
      npf_fv_def small_fund_fields calendar_eval)

lemma small_fund_capital_returns:
  "generate_capital_returns small_fund =
     Inr [(\<lparr>year = 2021, month = 3, day = 31\<rparr>, 50),
          (\<lparr>year = 2021, month = 4, day = 30\<rparr>, 50)]"
  by (simp add: generate_capital_returns_def small_fund_deployments small_fund_fields
      calendar_eval)

lemma small_fund_dates:
  "monthly_date_series small_fund =
     Inr [\<lparr>year = 2021, month = 1, day = 31\<rparr>, \<lparr>year = 2021, month = 2, day = 28\<rparr>,
          \<lparr>year = 2021, month = 3, day = 31\<rparr>, \<lparr>year = 2021, month = 4, day = 30\<rparr>]"
  by (simp add: monthly_date_series_def small_fund_capital_returns py_max_def small_fund_fields
      calendar_eval upt_conv_Cons)

lemma small_fund_allocations:
  "generate_proceeds_allocations_as_dict small_fund = Inr small_fund_schedules"
  by (simp add: generate_proceeds_allocations_as_dict_def small_fund_deployments
      small_fund_proceeds small_fund_capital_returns small_fund_dates allocation_step_def
      small_fund_irr_hurdle_per_month small_fund_fields dict_get_def empty_schedules_def
      small_fund_schedules_def calendar_eval pynum_eval)


lemma cis_twelfth_power_6: "cis (pi / 12) ^ 6 = \<i>"
proof -
  have "cis (pi / 12) ^ 6 = cis (real 6 * (pi / 12))" by (rule DeMoivre)
  also have "real 6 * (pi / 12) = pi / 2" by simp
  finally show ?thesis by simp
qed

lemma negative_irr_fund_fields:
  "fund_start_date negative_irr_fund = \<lparr>year = 2021, month = 1, day = 31\<rparr>"
  "deployment_start_date negative_irr_fund = \<lparr>year = 2021, month = 1, day = 31\<rparr>"
  "annual_effective_irr negative_irr_fund = - 2"
  "committed_capital negative_irr_fund = 100"
  "annual_mgmt_fee_rate negative_irr_fund = 0.005"
  "carry_percent negative_irr_fund = 0.2"
  "annual_effective_irr_hurdle negative_irr_fund = 0"
  "number_of_months_of_deployment negative_irr_fund = 1"
  "number_of_months_in_between_deployments negative_irr_fund = 1"
  "length_of_deployment_in_months negative_irr_fund = 6"
  "carry_catch_up negative_irr_fund = True"
  by (simp_all add: negative_irr_fund_def)

lemma negative_irr_fund_init: "ClosedEndFund_init negative_irr_fund = Inr negative_irr_fund"
  by (simp add: negative_irr_fund_def calendar_eval ClosedEndFund_init_def)

lemma negative_irr_fund_irr_per_month:
  "irr_per_month negative_irr_fund = PyComplex (cis (pi / 12) - 1)"
  by (simp add: irr_per_month_def negative_irr_fund_fields twelfth_root_def pynum_eval)

lemma negative_irr_fund_irr_hurdle_per_month:
  "irr_hurdle_per_month negative_irr_fund = PyFloat 0"
  by (simp add: irr_hurdle_per_month_def negative_irr_fund_fields twelfth_root_def pynum_eval)

lemma negative_irr_fund_deployments:
  "generate_deployments negative_irr_fund = Inr [(\<lparr>year = 2021, month = 1, day = 31\<rparr>, 100)]"
  by (simp add: negative_irr_fund_def calendar_eval generate_deployments_def int_of_quotient_def
      upt_conv_Cons)

lemma negative_irr_fund_proceeds:
  "generate_proceeds negative_irr_fund =
     Inr [(\<lparr>year = 2021, month = 7, day = 31\<rparr>, NpComplex128 (100 * \<i>))]"
  by (simp add: generate_proceeds_def negative_irr_fund_deployments negative_irr_fund_irr_per_month
      npf_fv_def negative_irr_fund_fields calendar_eval cis_twelfth_power_6)

lemma negative_irr_fund_capital_returns:
  "generate_capital_returns negative_irr_fund =
     Inr [(\<lparr>year = 2021, month = 7, day = 31\<rparr>, 100)]"
  by (simp add: generate_capital_returns_def negative_irr_fund_deployments
      negative_irr_fund_fields calendar_eval)

lemma negative_irr_fund_dates:
  "monthly_date_series negative_irr_fund =
     Inr [\<lparr>year = 2021, month = 1, day = 31\<rparr>, \<lparr>year = 2021, month = 2, day = 28\<rparr>,
          \<lparr>year = 2021, month = 3, day = 31\<rparr>, \<lparr>year = 2021, month = 4, day = 30\<rparr>,
          \<lparr>year = 2021, month = 5, day = 31\<rparr>, \<lparr>year = 2021, month = 6, day = 30\<rparr>,
          \<lparr>year = 2021, month = 7, day = 31\<rparr>]"
  by (simp add: monthly_date_series_def negative_irr_fund_capital_returns py_max_def
      negative_irr_fund_fields calendar_eval upt_conv_Cons)

lemma negative_irr_fund_allocations:
  "generate_proceeds_allocations_as_dict negative_irr_fund = Inr negative_irr_fund_schedules"
  by (simp add: generate_proceeds_allocations_as_dict_def negative_irr_fund_deployments
      negative_irr_fund_proceeds negative_irr_fund_capital_returns negative_irr_fund_dates
      allocation_step_def negative_irr_fund_irr_hurdle_per_month negative_irr_fund_fields
      dict_get_def empty_schedules_def negative_irr_fund_schedules_def calendar_eval pynum_eval)

lemma waterfall_row_catch_up:
  assumes row: "waterfall_row self dep proceed lo co t dt"
  shows "\<exists>lpay ca gp lp cc pg pl surplus.
        map_of (lp_preferred_payments t) dt = Some lpay
      \<and> map_of (catch_up_opening t) dt = Some co
      \<and> map_of (catch_up_accruals t) dt = Some ca
      \<and> map_of (catch_up_payments_gp_share t) dt = Some gp
      \<and> map_of (catch_up_payments_lp_share t) dt = Some lp
      \<and> map_of (catch_up_closing t) dt = Some cc
      \<and> map_of (post_catch_up_payments_gp_share t) dt = Some pg
      \<and> map_of (post_catch_up_payments_lp_share t) dt = Some pl
      \<and> py_gt proceed lpay = Inr surplus
      \<and> (if surplus
          then cc = py_sub (py_add co ca) gp \<and> lp = gp
          else cc = py_add co ca \<and> gp = PyFloat 0 \<and> lp = PyFloat 0
             \<and> pg = PyFloat 0 \<and> pl = PyFloat 0)"
proof -
  define lg where "lg = py_mul lo (irr_hurdle_per_month self)"
  define due where "due = py_add (py_add lo lg) (PyFloat dep)"
  define ca where "ca = py_mul
                 (py_mul lg (PyFloat (carry_percent self / (0.5 - carry_percent self) * 0.5)))
                 (PyFloat (if carry_catch_up self then 1 else 0))"
  define x where "x = py_div (py_add co ca) (PyFloat 0.5)"
  note row1 = row [unfolded waterfall_row_def Let_def, folded lg_def, folded due_def ca_def,
      folded x_def]
  from row1 obtain lpay where lpay: "py_min proceed due = Inr lpay"
    by (cases "py_min proceed due") simp_all
  note row2 = row1 [unfolded lpay sum.case]
  from row2 obtain surplus where gt: "py_gt proceed lpay = Inr surplus"
    by (cases "py_gt proceed lpay") simp_all
  note row3 = row2 [unfolded gt sum.case]
  from row3 have pay: "map_of (lp_preferred_payments t) dt = Some lpay"
    "map_of (catch_up_opening t) dt = Some co" "map_of (catch_up_accruals t) dt = Some ca"
    by simp_all
  show ?thesis
  proof (cases surplus)
    case False
    note row4 = row3 [unfolded if_not_P [OF False]]
    from row4 pay gt False show ?thesis by auto
  next
    case True
    note row4 = row3 [unfolded if_P [OF True]]
    from row4 obtain cp where cp: "py_min x (py_sub proceed lpay) = Inr cp"
      by (cases "py_min x (py_sub proceed lpay)") simp_all
    note row5 = row4 [unfolded cp sum.case]
    from row5 obtain remainder where rem: "py_gt proceed (py_add lpay cp) = Inr remainder"
      by (cases "py_gt proceed (py_add lpay cp)") simp_all
    note row6 = row5 [unfolded rem sum.case]
    from row6 have "\<exists>pg pl. map_of (post_catch_up_payments_gp_share t) dt = Some pg
        \<and> map_of (post_catch_up_payments_lp_share t) dt = Some pl"
      by (cases remainder) simp_all
    with row6 pay gt True show ?thesis by auto
  qed
qed

lemma waterfall_row_closing:
  assumes row: "waterfall_row self dep proceed lo co t dt"
  shows "\<exists>lc. map_of (lp_preferred_closing t) dt = Some lc
      \<and> \<not> lex_less (cval lc) 0
      \<and> (\<not> is_complex lo \<and> \<not> is_complex proceed \<and> \<not> is_complex (irr_hurdle_per_month self)
           \<longrightarrow> \<not> is_complex lc)"
proof -
  define lg where "lg = py_mul lo (irr_hurdle_per_month self)"
  define due where "due = py_add (py_add lo lg) (PyFloat dep)"
  note row1 = row [unfolded waterfall_row_def Let_def, folded lg_def, folded due_def]
  from row1 obtain lpay where lpay: "py_min proceed due = Inr lpay"
    by (cases "py_min proceed due") simp_all
  note row2 = row1 [unfolded lpay sum.case]
  note lpay_eq = py_min_Inr [OF lpay]
  from row2 have lc: "map_of (lp_preferred_closing t) dt = Some (py_sub due lpay)" by simp
  have "\<not> lex_less (cval due - cval lpay) 0"
    using lpay_eq by (simp add: lex_less_diff)
  moreover have "\<not> is_complex (py_sub due lpay)"
    if "\<not> is_complex lo" "\<not> is_complex proceed" "\<not> is_complex (irr_hurdle_per_month self)"
    using that lpay_eq by (simp add: due_def lg_def)
  ultimately show ?thesis using lc by simp
qed

lemma is_complex_twelfth_root: "is_complex (twelfth_root x) \<longleftrightarrow> x < 0"
  by (simp add: twelfth_root_def)

lemma is_complex_irr_per_month:
  "is_complex (irr_per_month self) \<longleftrightarrow> 1 + annual_effective_irr self < 0"
  by (simp add: irr_per_month_def is_complex_twelfth_root)

lemma is_complex_irr_hurdle_per_month:
  "is_complex (irr_hurdle_per_month self) \<longleftrightarrow> 1 + annual_effective_irr_hurdle self < 0"
  by (simp add: irr_hurdle_per_month_def is_complex_twelfth_root)

lemma proceeds_not_complex:
  assumes pr: "generate_proceeds self = Inr proceeds"
    and rate: "\<not> is_complex (irr_per_month self)"
  shows "\<forall>k v. map_of proceeds k = Some v \<longrightarrow> \<not> is_complex v"
proof -
  from pr obtain deployments where loop: "for_each
            (\<lambda>(dt, val) proceeds.
               let amount = npf_fv (irr_per_month self) (length_of_deployment_in_months self) (- val)
               in case add_n_months dt (length_of_deployment_in_months self) True of
                    Inl e \<Rightarrow> Inl e
                  | Inr key \<Rightarrow> Inr (AList.update key amount proceeds))
            deployments [] = Inr proceeds"
    by (auto simp: generate_proceeds_def split: sum.splits)
  show ?thesis
  proof (rule for_each_preserves [OF loop])
    show "\<forall>k v. map_of ([] :: (date, pynum) dict) k = Some v \<longrightarrow> \<not> is_complex v" by simp
  next
    fix x :: "date \<times> real" and u w :: "(date, pynum) dict"
    assume body: "(case x of (dt, val) \<Rightarrow> \<lambda>proceeds.
               let amount = npf_fv (irr_per_month self) (length_of_deployment_in_months self) (- val)
               in case add_n_months dt (length_of_deployment_in_months self) True of
                    Inl e \<Rightarrow> Inl e
                  | Inr key \<Rightarrow> Inr (AList.update key amount proceeds)) u = Inr w"
      and u: "\<forall>k v. map_of u k = Some v \<longrightarrow> \<not> is_complex v"
    obtain dt val where x: "x = (dt, val)" by (cases x)
    from body obtain key where w: "w = AList.update key
        (npf_fv (irr_per_month self) (length_of_deployment_in_months self) (- val)) u"
      by (auto simp: x Let_def split: sum.splits)
    have "\<not> is_complex (npf_fv (irr_per_month self) (length_of_deployment_in_months self) (- val))"
      using rate by (simp add: npf_fv_def)
    with u show "\<forall>k v. map_of w k = Some v \<longrightarrow> \<not> is_complex v"
      by (auto simp: w update_conv')
  qed
qed

lemma closing_not_complex:
  assumes loop: "for_each (allocation_step self deployments proceeds) dates empty_schedules = Inr s"
    and hurdle: "\<not> is_complex (irr_hurdle_per_month self)"
    and pr: "\<forall>k v. map_of proceeds k = Some v \<longrightarrow> \<not> is_complex v"
  shows "\<forall>k v. map_of (lp_preferred_closing s) k = Some v \<longrightarrow> \<not> is_complex v"
proof (rule for_each_preserves [OF loop])
  show "\<forall>k v. map_of (lp_preferred_closing empty_schedules) k = Some v \<longrightarrow> \<not> is_complex v"
    by (simp add: empty_schedules_def)
next
  fix x u w
  assume step: "allocation_step self deployments proceeds x u = Inr w"
    and u: "\<forall>k v. map_of (lp_preferred_closing u) k = Some v \<longrightarrow> \<not> is_complex v"
  from allocation_step_Inr(1) [OF step] obtain prior
    where prior: "add_n_months x (- 1) True = Inr prior" by blast
  have lo: "\<not> is_complex (dict_get (lp_preferred_closing u) prior (PyFloat 0))"
    using u by (simp add: dict_get_def split: option.splits)
  have proceed: "\<not> is_complex (dict_get proceeds x (PyFloat 0))"
    using pr by (simp add: dict_get_def split: option.splits)
  from waterfall_row_closing [OF allocation_step_row [OF step prior]] lo proceed hurdle
  obtain lc where lc: "map_of (lp_preferred_closing w) x = Some lc" "\<not> is_complex lc"
    by blast
  show "\<forall>k v. map_of (lp_preferred_closing w) k = Some v \<longrightarrow> \<not> is_complex v"
  proof (intro allI impI)
    fix k v assume kv: "map_of (lp_preferred_closing w) k = Some v"
    show "\<not> is_complex v"
    proof (cases "k = x")
      case True
      with kv lc show ?thesis by simp
    next
      case False
      from allocation_step_other(4) [OF step False] kv u show ?thesis by simp
    qed
  qed
qed

lemma nonnegative_float:
  assumes "\<not> is_complex a" and "\<not> lex_less (cval a) 0"
  shows "\<exists>r. (a = PyFloat r \<or> a = NpFloat64 r) \<and> 0 \<le> r"
  using assms by (cases a) (auto simp: lex_less_def)

section \<open>Claims about the waterfall\<close>

text \<open>
  C1.  Whenever \<open>generate_proceeds_allocations_as_dict\<close> returns its schedules, at every
  date \<open>d\<close> of the monthly date series the LP preferred payment, the two catch-up shares and
  the two post-catch-up shares are all present, and their sum \<open>==\<close> \<open>proceeds.get(d, 0)\<close>:
  every proceeds amount is fully allocated across the five payment schedules.  This holds
  for complex proceeds as well, which an annual return below minus 100 percent produces.
\<close>

theorem proceeds_fully_allocated:
  assumes "generate_proceeds_allocations_as_dict self = Inr s"
    and "generate_proceeds self = Inr proceeds"
    and "monthly_date_series self = Inr dates"
    and "d \<in> set dates"
  shows "\<exists>lpay gp lp pg pl.
        map_of (lp_preferred_payments s) d = Some lpay
      \<and> map_of (catch_up_payments_gp_share s) d = Some gp
      \<and> map_of (catch_up_payments_lp_share s) d = Some lp
      \<and> map_of (post_catch_up_payments_gp_share s) d = Some pg
      \<and> map_of (post_catch_up_payments_lp_share s) d = Some pl
      \<and> py_eq (py_add (py_add (py_add (py_add lpay gp) lp) pg) pl)
           (dict_get proceeds d (PyFloat 0))"
proof -
  from assms(1) obtain deployments where deps: "generate_deployments self = Inr deployments"
    by (auto simp: generate_proceeds_allocations_as_dict_def split: sum.splits)
  from allocations_rows [OF assms(1) deps assms(2,3,4)]
  obtain lo co
    where row: "waterfall_row self (dict_get deployments d 0) (dict_get proceeds d (PyFloat 0))
        lo co s d"
    by blast
  from waterfall_row_payments [OF row] show ?thesis
    by (simp add: py_eq_def)
qed

theorem proceeds_fully_allocated_witness:
  "generate_proceeds_allocations_as_dict small_fund = Inr small_fund_schedules
   \<and> (\<exists>lpay gp lp pg pl.
        map_of (lp_preferred_payments small_fund_schedules) \<lparr>year = 2021, month = 4, day = 30\<rparr>
          = Some lpay
      \<and> map_of (catch_up_payments_gp_share small_fund_schedules)
          \<lparr>year = 2021, month = 4, day = 30\<rparr> = Some gp
      \<and> map_of (catch_up_payments_lp_share small_fund_schedules)
          \<lparr>year = 2021, month = 4, day = 30\<rparr> = Some lp
      \<and> map_of (post_catch_up_payments_gp_share small_fund_schedules)
          \<lparr>year = 2021, month = 4, day = 30\<rparr> = Some pg
      \<and> map_of (post_catch_up_payments_lp_share small_fund_schedules)
          \<lparr>year = 2021, month = 4, day = 30\<rparr> = Some pl
      \<and> py_eq (py_add (py_add (py_add (py_add lpay gp) lp) pg) pl) (NpFloat64 100))
   \<and> generate_proceeds_allocations_as_dict negative_irr_fund = Inr negative_irr_fund_schedules
   \<and> (\<exists>lpay gp lp pg pl.
        map_of (lp_preferred_payments negative_irr_fund_schedules)
          \<lparr>year = 2021, month = 7, day = 31\<rparr> = Some lpay
      \<and> map_of (catch_up_payments_gp_share negative_irr_fund_schedules)
          \<lparr>year = 2021, month = 7, day = 31\<rparr> = Some gp
      \<and> map_of (catch_up_payments_lp_share negative_irr_fund_schedules)
          \<lparr>year = 2021, month = 7, day = 31\<rparr> = Some lp
      \<and> map_of (post_catch_up_payments_gp_share negative_irr_fund_schedules)
          \<lparr>year = 2021, month = 7, day = 31\<rparr> = Some pg
      \<and> map_of (post_catch_up_payments_lp_share negative_irr_fund_schedules)
          \<lparr>year = 2021, month = 7, day = 31\<rparr> = Some pl
      \<and> py_eq (py_add (py_add (py_add (py_add lpay gp) lp) pg) pl) (NpComplex128 (100 * \<i>)))"
proof -
  have d: "\<lparr>year = 2021, month = 4, day = 30\<rparr>
      \<in> set [\<lparr>year = 2021, month = 1, day = 31\<rparr>, \<lparr>year = 2021, month = 2, day = 28\<rparr>,
          \<lparr>year = 2021, month = 3, day = 31\<rparr>, \<lparr>year = 2021, month = 4, day = 30\<rparr>]"
    by simp
  have p: "dict_get [(\<lparr>year = 2021, month = 3, day = 31\<rparr>, NpFloat64 100),
          (\<lparr>year = 2021, month = 4, day = 30\<rparr>, NpFloat64 100)]
        \<lparr>year = 2021, month = 4, day = 30\<rparr> (PyFloat 0) = NpFloat64 100"
    by (simp add: dict_get_def)
  have d': "\<lparr>year = 2021, month = 7, day = 31\<rparr>
      \<in> set [\<lparr>year = 2021, month = 1, day = 31\<rparr>, \<lparr>year = 2021, month = 2, day = 28\<rparr>,
          \<lparr>year = 2021, month = 3, day = 31\<rparr>, \<lparr>year = 2021, month = 4, day = 30\<rparr>,
          \<lparr>year = 2021, month = 5, day = 31\<rparr>, \<lparr>year = 2021, month = 6, day = 30\<rparr>,
          \<lparr>year = 2021, month = 7, day = 31\<rparr>]"
    by simp
  have p': "dict_get [(\<lparr>year = 2021, month = 7, day = 31\<rparr>, NpComplex128 (100 * \<i>))]
        \<lparr>year = 2021, month = 7, day = 31\<rparr> (PyFloat 0) = NpComplex128 (100 * \<i>)"
    by (simp add: dict_get_def)
  from proceeds_fully_allocated
    [OF small_fund_allocations small_fund_proceeds small_fund_dates d]
    proceeds_fully_allocated
    [OF negative_irr_fund_allocations negative_irr_fund_proceeds negative_irr_fund_dates d']
  show ?thesis
    unfolding p p' by (simp add: small_fund_allocations negative_irr_fund_allocations)
qed

text \<open>
  C5.  At every date of the monthly date series the comparison of the proceed with the LP
  preferred payment returns.  When the proceed exceeds the payment, the catch-up closing
  balance is the opening balance plus the accrual less the GP share of the catch-up
  payment, the LP share being paid as well and equal to the GP share; otherwise the closing
  balance is the opening balance plus the accrual, and the four catch-up and
  post-catch-up payments of the date are 0.
\<close>

theorem catch_up_closing_balance:
  assumes "generate_proceeds_allocations_as_dict self = Inr s"
    and "generate_proceeds self = Inr proceeds"
    and "monthly_date_series self = Inr dates"
    and "d \<in> set dates"
  shows "\<exists>lpay co ca gp lp cc pg pl surplus.
        map_of (lp_preferred_payments s) d = Some lpay
      \<and> map_of (catch_up_opening s) d = Some co
      \<and> map_of (catch_up_accruals s) d = Some ca
      \<and> map_of (catch_up_payments_gp_share s) d = Some gp
      \<and> map_of (catch_up_payments_lp_share s) d = Some lp
      \<and> map_of (catch_up_closing s) d = Some cc
      \<and> map_of (post_catch_up_payments_gp_share s) d = Some pg
      \<and> map_of (post_catch_up_payments_lp_share s) d = Some pl
      \<and> py_gt (dict_get proceeds d (PyFloat 0)) lpay = Inr surplus
      \<and> (if surplus
          then cc = py_sub (py_add co ca) gp \<and> lp = gp
          else cc = py_add co ca \<and> gp = PyFloat 0 \<and> lp = PyFloat 0
             \<and> pg = PyFloat 0 \<and> pl = PyFloat 0)"
proof -
  from assms(1) obtain deployments where deps: "generate_deployments self = Inr deployments"
    by (auto simp: generate_proceeds_allocations_as_dict_def split: sum.splits)
  from allocations_rows [OF assms(1) deps assms(2,3,4)]
  obtain lo co
    where row: "waterfall_row self (dict_get deployments d 0) (dict_get proceeds d (PyFloat 0))
        lo co s d"
    by blast
  from waterfall_row_catch_up [OF row] show ?thesis by blast
qed

theorem catch_up_closing_balance_witness:
  "generate_proceeds_allocations_as_dict small_fund = Inr small_fund_schedules
   \<and> (\<exists>lpay co ca gp lp cc pg pl surplus.
        map_of (lp_preferred_payments small_fund_schedules) \<lparr>year = 2021, month = 4, day = 30\<rparr>
          = Some lpay
      \<and> map_of (catch_up_opening small_fund_schedules) \<lparr>year = 2021, month = 4, day = 30\<rparr>
          = Some co
      \<and> map_of (catch_up_accruals small_fund_schedules) \<lparr>year = 2021, month = 4, day = 30\<rparr>
          = Some ca
      \<and> map_of (catch_up_payments_gp_share small_fund_schedules)
          \<lparr>year = 2021, month = 4, day = 30\<rparr> = Some gp
      \<and> map_of (catch_up_payments_lp_share small_fund_schedules)
          \<lparr>year = 2021, month = 4, day = 30\<rparr> = Some lp
      \<and> map_of (catch_up_closing small_fund_schedules) \<lparr>year = 2021, month = 4, day = 30\<rparr>
          = Some cc
      \<and> map_of (post_catch_up_payments_gp_share small_fund_schedules)
          \<lparr>year = 2021, month = 4, day = 30\<rparr> = Some pg
      \<and> map_of (post_catch_up_payments_lp_share small_fund_schedules)
          \<lparr>year = 2021, month = 4, day = 30\<rparr> = Some pl
      \<and> py_gt (NpFloat64 100) lpay = Inr surplus
      \<and> (if surplus
          then cc = py_sub (py_add co ca) gp \<and> lp = gp
          else cc = py_add co ca \<and> gp = PyFloat 0 \<and> lp = PyFloat 0
             \<and> pg = PyFloat 0 \<and> pl = PyFloat 0))"
proof -
  have d: "\<lparr>year = 2021, month = 4, day = 30\<rparr>
      \<in> set [\<lparr>year = 2021, month = 1, day = 31\<rparr>, \<lparr>year = 2021, month = 2, day = 28\<rparr>,
          \<lparr>year = 2021, month = 3, day = 31\<rparr>, \<lparr>year = 2021, month = 4, day = 30\<rparr>]"
    by simp
  have p: "dict_get [(\<lparr>year = 2021, month = 3, day = 31\<rparr>, NpFloat64 100),
          (\<lparr>year = 2021, month = 4, day = 30\<rparr>, NpFloat64 100)]
        \<lparr>year = 2021, month = 4, day = 30\<rparr> (PyFloat 0) = NpFloat64 100"
    by (simp add: dict_get_def)
  from catch_up_closing_balance
    [OF small_fund_allocations small_fund_proceeds small_fund_dates d]
  show ?thesis
    unfolding p by (simp add: small_fund_allocations)
qed

text \<open>
  C9, as stated, fails for a fund with an annual return below minus 100 percent, which the
  constructor accepts: with a hurdle rate of 0, the schedules are returned and the LP
  preferred closing balance of the last date is the complex number \<open>100 - 100j\<close>, which
  is not a nonnegative real number.
\<close>

theorem lp_preferred_closing_complex:
  "ClosedEndFund_init negative_irr_fund = Inr negative_irr_fund
   \<and> 0 \<le> annual_effective_irr_hurdle negative_irr_fund
   \<and> generate_proceeds_allocations_as_dict negative_irr_fund = Inr negative_irr_fund_schedules
   \<and> map_of (lp_preferred_closing negative_irr_fund_schedules)
        \<lparr>year = 2021, month = 7, day = 31\<rparr> = Some (NpComplex128 (100 - 100 * \<i>))
   \<and> \<not> (\<exists>r. 0 \<le> r \<and> cval (NpComplex128 (100 - 100 * \<i>)) = of_real r)"
proof -
  have "cval (NpComplex128 (100 - 100 * \<i>)) \<noteq> of_real r" for r
    by (simp add: complex_eq_iff)
  then show ?thesis
    by (simp add: negative_irr_fund_init negative_irr_fund_allocations negative_irr_fund_fields
        negative_irr_fund_schedules_def)
qed

text \<open>
  C9 (amended).  Whenever the schedules are returned, the LP preferred closing balance of
  every date of the monthly date series is not below 0 in the lexicographic order, by the
  real part and then by the imaginary part, in which numpy compares.  For a fund whose
  annual return and annual hurdle rate are both at least minus 100 percent, in particular
  with a nonnegative hurdle rate, the balance is a float, and it is nonnegative.
\<close>

theorem lp_preferred_closing_nonnegative:
  assumes "generate_proceeds_allocations_as_dict self = Inr s"
    and "monthly_date_series self = Inr dates"
    and "d \<in> set dates"
  shows "\<exists>lc. map_of (lp_preferred_closing s) d = Some lc
      \<and> \<not> lex_less (cval lc) 0
      \<and> (- 1 \<le> annual_effective_irr self \<and> - 1 \<le> annual_effective_irr_hurdle self
           \<longrightarrow> (\<exists>r. (lc = PyFloat r \<or> lc = NpFloat64 r) \<and> 0 \<le> r))"
proof -
  from assms(1) obtain deployments proceeds
    where deps: "generate_deployments self = Inr deployments"
      and pr: "generate_proceeds self = Inr proceeds"
    by (auto simp: generate_proceeds_allocations_as_dict_def split: sum.splits)
  from assms(1) have loop:
    "for_each (allocation_step self deployments proceeds) dates empty_schedules = Inr s"
    by (simp add: generate_proceeds_allocations_as_dict_def deps pr assms(2) split: sum.splits)
  from allocations_rows [OF assms(1) deps pr assms(2,3)]
  obtain lo co
    where row: "waterfall_row self (dict_get deployments d 0) (dict_get proceeds d (PyFloat 0))
        lo co s d"
    by blast
  from waterfall_row_closing [OF row] obtain lc
    where lc: "map_of (lp_preferred_closing s) d = Some lc" and nn: "\<not> lex_less (cval lc) 0"
    by blast
  have float: "\<exists>r. (lc = PyFloat r \<or> lc = NpFloat64 r) \<and> 0 \<le> r"
    if "- 1 \<le> annual_effective_irr self" "- 1 \<le> annual_effective_irr_hurdle self"
  proof -
    have "\<not> is_complex (irr_per_month self)" "\<not> is_complex (irr_hurdle_per_month self)"
      using that by (simp_all add: is_complex_irr_per_month is_complex_irr_hurdle_per_month)
    from closing_not_complex [OF loop this(2) proceeds_not_complex [OF pr this(1)]] lc
    have "\<not> is_complex lc" by blast
    then show ?thesis using nn by (rule nonnegative_float)
  qed
  from lc nn float show ?thesis by blast
qed

theorem lp_preferred_closing_nonnegative_witness:
  "generate_proceeds_allocations_as_dict small_fund = Inr small_fund_schedules
   \<and> - 1 \<le> annual_effective_irr small_fund \<and> - 1 \<le> annual_effective_irr_hurdle small_fund
   \<and> (\<exists>lc. map_of (lp_preferred_closing small_fund_schedules)
          \<lparr>year = 2021, month = 3, day = 31\<rparr> = Some lc
        \<and> \<not> lex_less (cval lc) 0
        \<and> (\<exists>r. (lc = PyFloat r \<or> lc = NpFloat64 r) \<and> 0 \<le> r))"
proof -
  have d: "\<lparr>year = 2021, month = 3, day = 31\<rparr>
      \<in> set [\<lparr>year = 2021, month = 1, day = 31\<rparr>, \<lparr>year = 2021, month = 2, day = 28\<rparr>,
          \<lparr>year = 2021, month = 3, day = 31\<rparr>, \<lparr>year = 2021, month = 4, day = 30\<rparr>]"
    by simp
  have h: "- 1 \<le> annual_effective_irr small_fund" "- 1 \<le> annual_effective_irr_hurdle small_fund"
    by (simp_all add: small_fund_fields)
  from lp_preferred_closing_nonnegative [OF small_fund_allocations small_fund_dates d]
    small_fund_allocations h
  show ?thesis by simp
qed

section \<open>Facts about the recurrences over the monthly date series\<close>

lemma for_each_snoc:
  "for_each body (xs @ [x]) s =
     (case for_each body xs s of Inl e \<Rightarrow> Inl e | Inr u \<Rightarrow> body x u)"
  by (induction xs arbitrary: s) (auto split: sum.splits)

lemma for_each_chain:
  fixes cl :: "'s \<Rightarrow> 'k \<Rightarrow> 'v option" and z :: 'v
  assumes "for_each body xs s0 = Inr t"
    and "cl s0 = Map.empty"
    and "\<And>x u w. x \<in> set xs \<Longrightarrow> body x u = Inr w \<Longrightarrow>
           \<exists>p v. prior x = Inr p \<and> cl w = (cl u)(x \<mapsto> v)
             \<and> G x (case cl u p of None \<Rightarrow> z | Some c \<Rightarrow> c) w"
    and "\<And>x y b u w. x \<in> set xs \<Longrightarrow> body x u = Inr w \<Longrightarrow> y \<noteq> x \<Longrightarrow> G y b u \<Longrightarrow> G y b w"
    and "distinct xs"
    and "\<And>i. Suc i < length xs \<Longrightarrow> prior (xs ! Suc i) = Inr (xs ! i)"
    and "\<And>p. xs \<noteq> [] \<Longrightarrow> prior (xs ! 0) = Inr p \<Longrightarrow> p \<notin> set xs"
  shows "dom (cl t) = set xs
     \<and> (\<forall>i < length xs. \<exists>b. (if i = 0 then b = z else cl t (xs ! (i - 1)) = Some b)
           \<and> G (xs ! i) b t)"
  using assms(1,3-)
proof (induction xs arbitrary: t rule: rev_induct)
  case Nil
  then have "t = s0" by simp
  then show ?case by (simp add: assms(2))
next
  case (snoc x xs)
  from snoc.prems(1) obtain u where u: "for_each body xs s0 = Inr u" and w: "body x u = Inr t"
    by (auto simp: for_each_snoc split: sum.splits)
  have dist: "distinct xs" "x \<notin> set xs" using snoc.prems(4) by simp_all
  have IH: "dom (cl u) = set xs
     \<and> (\<forall>i < length xs. \<exists>b. (if i = 0 then b = z else cl u (xs ! (i - 1)) = Some b)
           \<and> G (xs ! i) b u)"
  proof (rule snoc.IH [OF u])
    show "\<exists>p v. prior y = Inr p \<and> cl w = (cl v')(y \<mapsto> v)
             \<and> G y (case cl v' p of None \<Rightarrow> z | Some c \<Rightarrow> c) w"
      if "y \<in> set xs" "body y v' = Inr w" for y v' w
      by (rule snoc.prems(2)) (use that in simp_all)
    show "G y b w" if "z \<in> set xs" "body z v' = Inr w" "y \<noteq> z" "G y b v'" for z y b v' w
      using snoc.prems(3) [of z v' w y b] that by simp
    show "distinct xs" by fact
    show "prior (xs ! Suc i) = Inr (xs ! i)" if "Suc i < length xs" for i
      using snoc.prems(5) [of i] that by (simp add: nth_append)
    show "p \<notin> set xs" if "xs \<noteq> []" "prior (xs ! 0) = Inr p" for p
      using snoc.prems(6) [of p] that by (simp add: nth_append)
  qed
  have "\<exists>p v. prior x = Inr p \<and> cl t = (cl u)(x \<mapsto> v)
             \<and> G x (case cl u p of None \<Rightarrow> z | Some c \<Rightarrow> c) t"
    by (rule snoc.prems(2)) (simp_all add: w)
  then obtain p v
    where p: "prior x = Inr p" and cl: "cl t = (cl u)(x \<mapsto> v)"
      and G: "G x (case cl u p of None \<Rightarrow> z | Some c \<Rightarrow> c) t"
    by blast
  have dom: "dom (cl t) = set (xs @ [x])"
    using IH by (auto simp: cl)
  have link: "\<exists>b. (if i = 0 then b = z else cl t ((xs @ [x]) ! (i - 1)) = Some b)
           \<and> G ((xs @ [x]) ! i) b t" if i: "i < length (xs @ [x])" for i
  proof (cases "i < length xs")
    case True
    with IH obtain b where b: "if i = 0 then b = z else cl u (xs ! (i - 1)) = Some b"
      and Gb: "G (xs ! i) b u"
      by blast
    have ne: "xs ! i \<noteq> x" using True dist(2) by (metis nth_mem)
    have Gt: "G (xs ! i) b t"
      using snoc.prems(3) [of x u t "xs ! i" b] w ne Gb by simp
    have bt: "if i = 0 then b = z else cl t (xs ! (i - 1)) = Some b"
    proof (cases "i = 0")
      case True
      with b show ?thesis by simp
    next
      case False
      with \<open>i < length xs\<close> have "xs ! (i - 1) \<in> set xs" by simp
      with dist(2) have "xs ! (i - 1) \<noteq> x" by metis
      with b False show ?thesis by (simp add: cl)
    qed
    have "i - 1 < length xs" using True by simp
    with True have idx: "(xs @ [x]) ! i = xs ! i" "(xs @ [x]) ! (i - 1) = xs ! (i - 1)"
      by (simp_all only: nth_append if_True)
    show ?thesis
    proof (intro exI [of _ b] conjI)
      show "if i = 0 then b = z else cl t ((xs @ [x]) ! (i - 1)) = Some b"
        using bt by (simp only: idx)
      show "G ((xs @ [x]) ! i) b t"
        using Gt by (simp only: idx)
    qed
  next
    case False
    with i have il: "i = length xs" by simp
    show ?thesis
    proof (cases "xs = []")
      case True
      have "p \<notin> set (xs @ [x])"
        using snoc.prems(6) [of p] p True by simp
      moreover have "cl u = Map.empty" using u True assms(2) by simp
      ultimately have "G x z t" using G by simp
      then show ?thesis using il True by simp
    next
      case False
      then have n: "0 < length xs" by simp
      have "prior ((xs @ [x]) ! Suc (length xs - 1)) = Inr ((xs @ [x]) ! (length xs - 1))"
        by (rule snoc.prems(5)) (use n in simp)
      then have "prior x = Inr (xs ! (length xs - 1))"
        using n by (simp add: nth_append)
      with p have pl: "p = xs ! (length xs - 1)" by simp
      then have "p \<in> set xs" using n by simp
      with IH obtain c where c: "cl u p = Some c" by blast
      have "p \<noteq> x" using \<open>p \<in> set xs\<close> dist(2) by metis
      then have "cl t p = Some c" by (simp add: cl c)
      moreover have "G x c t" using G c by simp
      moreover have "(xs @ [x]) ! i = x" "(xs @ [x]) ! (i - 1) = p" "i \<noteq> 0"
        using il n pl by (simp_all add: nth_append)
      ultimately show ?thesis by auto
    qed
  qed
  from dom link show ?case by blast
qed

lemma traverse_Inr_nth:
  assumes "traverse f xs = Inr ys"
  shows "length ys = length xs \<and> (\<forall>i < length xs. f (xs ! i) = Inr (ys ! i))"
  using assms
proof (induction xs arbitrary: ys)
  case Nil
  then show ?case by simp
next
  case (Cons x xs)
  from Cons.prems obtain y zs where y: "f x = Inr y" and zs: "traverse f xs = Inr zs"
    and ys: "ys = y # zs"
    by (auto split: sum.splits)
  from Cons.IH [OF zs] have len: "length zs = length xs"
    and nth: "\<And>i. i < length xs \<Longrightarrow> f (xs ! i) = Inr (zs ! i)"
    by simp_all
  have "f ((x # xs) ! i) = Inr (ys ! i)" if "i < length (x # xs)" for i
    using that y nth [of "i - 1"] by (cases i) (simp_all add: ys)
  with len show ?case by (simp add: ys)
qed

lemma generate_monthly_date_series_Inr:
  assumes "generate_monthly_date_series a b = Inr ds"
  shows "\<forall>k < length ds. representable (year_month_num a + int k)
           \<and> ds ! k = month_end_of (year_month_num a + int k)"
proof (intro allI impI)
  fix k assume k: "k < length ds"
  define n where "n = nat (year_month_num b - year_month_num a + 1)"
  from assms have tr: "traverse (\<lambda>diff. end_of_month_from_int (year_month_num a + diff))
      (map int [0..<n]) = Inr ds"
    by (simp add: generate_monthly_date_series_def number_of_months_diff_def py_range_0 n_def)
  from traverse_Inr_nth [OF tr] have len: "length ds = n"
    and nth: "\<And>i. i < n \<Longrightarrow> end_of_month_from_int (year_month_num a + int i) = Inr (ds ! i)"
    by simp_all
  from nth [of k] k len
  show "representable (year_month_num a + int k)
           \<and> ds ! k = month_end_of (year_month_num a + int k)"
    by (auto simp: end_of_month_from_int_eq split: if_splits)
qed

lemma monthly_date_series_chain:
  assumes "monthly_date_series self = Inr dates"
  shows "distinct dates"
    and "\<And>i. Suc i < length dates \<Longrightarrow> add_n_months (dates ! Suc i) (- 1) True = Inr (dates ! i)"
    and "\<And>p. dates \<noteq> [] \<Longrightarrow> add_n_months (dates ! 0) (- 1) True = Inr p \<Longrightarrow> p \<notin> set dates"
proof -
  from assms obtain a b where "generate_monthly_date_series a b = Inr dates"
    by (auto simp: monthly_date_series_def split: sum.splits)
  from generate_monthly_date_series_Inr [OF this]
  have rep: "\<And>k. k < length dates \<Longrightarrow> representable (year_month_num a + int k)"
    and nth: "\<And>k. k < length dates \<Longrightarrow> dates ! k = month_end_of (year_month_num a + int k)"
    by simp_all
  show "distinct dates"
  proof (rule distinct_conv_nth [THEN iffD2], intro allI impI)
    fix i j assume "i < length dates" "j < length dates" "i \<noteq> j"
    then show "dates ! i \<noteq> dates ! j"
      by (simp add: nth month_end_of_inj)
  qed
  show "add_n_months (dates ! Suc i) (- 1) True = Inr (dates ! i)" if "Suc i < length dates" for i
  proof -
    from that have i: "i < length dates" by simp
    have "add_n_months (dates ! Suc i) (- 1) True
        = end_of_month_from_int (year_month_num a + int (Suc i) + (- 1))"
      using rep [OF that] by (simp add: nth [OF that] add_n_months_True valid_month_end_of)
    also have "\<dots> = Inr (dates ! i)"
      using rep [OF i] by (simp add: nth [OF i] end_of_month_from_int_eq)
    finally show ?thesis .
  qed
  show "p \<notin> set dates" if "dates \<noteq> []" "add_n_months (dates ! 0) (- 1) True = Inr p" for p
  proof
    assume "p \<in> set dates"
    then obtain k where k: "k < length dates" "dates ! k = p"
      by (auto simp: in_set_conv_nth)
    from that(1) have 0: "0 < length dates" by simp
    have "add_n_months (dates ! 0) (- 1) True = end_of_month_from_int (year_month_num a - 1)"
      using rep [OF 0] by (simp add: nth [OF 0] add_n_months_True valid_month_end_of)
    with that(2) have "p = month_end_of (year_month_num a - 1)"
      by (auto simp: end_of_month_from_int_eq split: if_splits)
    with k nth [OF k(1)] show False
      by (simp add: month_end_of_inj)
  qed
qed

lemma for_each_steps:
  assumes "for_each body xs s = Inr t" and "x \<in> set xs"
  shows "\<exists>u w. body x u = Inr w"
  using assms
proof (induction xs arbitrary: s)
  case Nil
  then show ?case by simp
next
  case (Cons y ys)
  from Cons.prems(1) obtain u where u: "body y s = Inr u" and rest: "for_each body ys u = Inr t"
    by (auto split: sum.splits)
  show ?case
  proof (cases "x = y")
    case True
    with u show ?thesis by blast
  next
    case False
    with Cons.prems(2) have "x \<in> set ys" by simp
    from Cons.IH [OF rest this] show ?thesis .
  qed
qed

lemma month_end_valid:
  assumes "end_of_month_from_date d = Inr d"
  shows "valid_date d"
proof -
  from assms have "representable (year_month_num d)" "d = month_end_of (year_month_num d)"
    by (auto simp: end_of_month_from_date_def end_of_month_from_int_eq split: if_splits)
  then show ?thesis using valid_month_end_of by metis
qed

lemma add_n_months_minus_one:
  assumes "end_of_month_from_date d = Inr d"
  shows "add_n_months d (- 1) True = end_of_month_from_int (year_month_num d - 1)
     \<and> (13 < year_month_num d \<longrightarrow> (\<exists>p. add_n_months d (- 1) True = Inr p))
     \<and> (\<forall>p. add_n_months d (- 1) True = Inr p \<longrightarrow>
            end_of_month_from_date p = Inr p
          \<and> year_month_num p = year_month_num d - 1
          \<and> date_less p d
          \<and> add_n_months p 1 True = Inr d)"
proof -
  define i where "i = year_month_num d"
  from assms have ri: "representable i" and d: "d = month_end_of i"
    by (auto simp: end_of_month_from_date_def end_of_month_from_int_eq i_def split: if_splits)
  have v: "valid_date d" using assms by (rule month_end_valid)
  have eq: "add_n_months d (- 1) True = end_of_month_from_int (i - 1)"
    using v by (simp add: add_n_months_True i_def)
  have ex: "\<exists>p. add_n_months d (- 1) True = Inr p" if "13 < i"
    using that ri by (simp add: eq end_of_month_from_int_eq representable_def)
  have prev: "end_of_month_from_date p = Inr p \<and> year_month_num p = i - 1 \<and> date_less p d
      \<and> add_n_months p 1 True = Inr d" if "add_n_months d (- 1) True = Inr p" for p
  proof -
    from that have rp: "representable (i - 1)" and p: "p = month_end_of (i - 1)"
      by (auto simp: eq end_of_month_from_int_eq split: if_splits)
    have "end_of_month_from_date p = Inr p"
      using rp by (simp add: p end_of_month_from_date_def end_of_month_from_int_eq)
    moreover have "year_month_num p = i - 1" by (simp add: p)
    moreover have "date_less p d" by (simp add: p d date_less_month_end_of)
    moreover have "add_n_months p 1 True = Inr d"
      using rp ri valid_month_end_of [OF rp]
      by (simp add: p add_n_months_True end_of_month_from_int_eq d)
    ultimately show ?thesis by simp
  qed
  from eq ex prev show ?thesis unfolding i_def by blast
qed

lemma closing_invested_capital_step_Inr:
  assumes "closing_invested_capital_step deployments capital_returns x u = Inr w"
  shows "\<exists>p v. add_n_months x (- 1) True = Inr p \<and> map_of w = (map_of u)(x \<mapsto> v)
      \<and> map_of w x = Some ((case map_of u p of None \<Rightarrow> 0 | Some c \<Rightarrow> c)
            + dict_get deployments x 0 - dict_get capital_returns x 0)"
proof -
  from assms obtain p where p: "add_n_months x (- 1) True = Inr p"
    by (auto simp: closing_invested_capital_step_def split: sum.splits)
  define v where "v = dict_get u p 0 + dict_get deployments x 0 - dict_get capital_returns x 0"
  from assms have w: "w = AList.update x v u"
    by (simp add: closing_invested_capital_step_def p Let_def v_def)
  have "map_of w = (map_of u)(x \<mapsto> v)" by (simp only: w update_conv')
  moreover have "map_of w x = Some ((case map_of u p of None \<Rightarrow> 0 | Some c \<Rightarrow> c)
            + dict_get deployments x 0 - dict_get capital_returns x 0)"
    by (simp add: w update_conv' v_def dict_get_def)
  ultimately show ?thesis using p by blast
qed


lemma waterfall_row_opening:
  assumes row: "waterfall_row self dep proceed lo co t dt"
  shows "map_of (lp_preferred_opening t) dt = Some lo"
proof -
  define lg where "lg = py_mul lo (irr_hurdle_per_month self)"
  define due where "due = py_add (py_add lo lg) (PyFloat dep)"
  note row1 = row [unfolded waterfall_row_def Let_def, folded lg_def, folded due_def]
  from row1 obtain lpay where lpay: "py_min proceed due = Inr lpay"
    by (cases "py_min proceed due") simp_all
  from row1 [unfolded lpay sum.case] show ?thesis by simp
qed

lemma allocation_step_closing:
  assumes step: "allocation_step self deployments proceeds x u = Inr w"
  shows "\<exists>p v. add_n_months x (- 1) True = Inr p
      \<and> map_of (lp_preferred_closing w) = (map_of (lp_preferred_closing u))(x \<mapsto> v)
      \<and> map_of (lp_preferred_opening w) x
          = Some (case map_of (lp_preferred_closing u) p of None \<Rightarrow> PyFloat 0 | Some c \<Rightarrow> c)"
    and "\<exists>p v. add_n_months x (- 1) True = Inr p
      \<and> map_of (catch_up_closing w) = (map_of (catch_up_closing u))(x \<mapsto> v)
      \<and> map_of (catch_up_opening w) x
          = Some (case map_of (catch_up_closing u) p of None \<Rightarrow> PyFloat 0 | Some c \<Rightarrow> c)"
proof -
  from allocation_step_Inr(1) [OF step] obtain prior
    where prior: "add_n_months x (- 1) True = Inr prior"
    by blast
  note row = allocation_step_row [OF step prior]
  from waterfall_row_closing [OF row] obtain v
    where v: "map_of (lp_preferred_closing w) x = Some v" by blast
  have "map_of (lp_preferred_closing w) = (map_of (lp_preferred_closing u))(x \<mapsto> v)"
  proof (rule ext)
    fix y show "map_of (lp_preferred_closing w) y = ((map_of (lp_preferred_closing u))(x \<mapsto> v)) y"
      using v allocation_step_other(4) [OF step, of y] by (cases "y = x") simp_all
  qed
  moreover have "map_of (lp_preferred_opening w) x
          = Some (case map_of (lp_preferred_closing u) prior of None \<Rightarrow> PyFloat 0 | Some c \<Rightarrow> c)"
    using waterfall_row_opening [OF row] by (simp add: dict_get_def)
  ultimately show "\<exists>p v. add_n_months x (- 1) True = Inr p
      \<and> map_of (lp_preferred_closing w) = (map_of (lp_preferred_closing u))(x \<mapsto> v)
      \<and> map_of (lp_preferred_opening w) x
          = Some (case map_of (lp_preferred_closing u) p of None \<Rightarrow> PyFloat 0 | Some c \<Rightarrow> c)"
    using prior by blast
  from waterfall_row_catch_up [OF row] obtain v'
    where v': "map_of (catch_up_closing w) x = Some v'"
      and co: "map_of (catch_up_opening w) x = Some (dict_get (catch_up_closing u) prior (PyFloat 0))"
    by blast
  have "map_of (catch_up_closing w) = (map_of (catch_up_closing u))(x \<mapsto> v')"
  proof (rule ext)
    fix y show "map_of (catch_up_closing w) y = ((map_of (catch_up_closing u))(x \<mapsto> v')) y"
      using v' allocation_step_other(9) [OF step, of y] by (cases "y = x") simp_all
  qed
  moreover have "map_of (catch_up_opening w) x
          = Some (case map_of (catch_up_closing u) prior of None \<Rightarrow> PyFloat 0 | Some c \<Rightarrow> c)"
    using co by (simp add: dict_get_def)
  ultimately show "\<exists>p v. add_n_months x (- 1) True = Inr p
      \<and> map_of (catch_up_closing w) = (map_of (catch_up_closing u))(x \<mapsto> v)
      \<and> map_of (catch_up_opening w) x
          = Some (case map_of (catch_up_closing u) p of None \<Rightarrow> PyFloat 0 | Some c \<Rightarrow> c)"
    using prior by blast
qed

lemma small_fund_closing_invested_capital:
  "generate_closing_invested_capital small_fund =
     Inr [(\<lparr>year = 2021, month = 1, day = 31\<rparr>, 0), (\<lparr>year = 2021, month = 2, day = 28\<rparr>, 50),
          (\<lparr>year = 2021, month = 3, day = 31\<rparr>, 50), (\<lparr>year = 2021, month = 4, day = 30\<rparr>, 0)]"
  by (simp add: generate_closing_invested_capital_def small_fund_deployments
      small_fund_capital_returns small_fund_dates closing_invested_capital_step_def
      dict_get_def calendar_eval)

lemma for_each_total:
  assumes "\<And>x s. x \<in> set xs \<Longrightarrow> \<exists>t. body x s = Inr t"
  shows "\<exists>t. for_each body xs s = Inr t"
  using assms
proof (induction xs arbitrary: s)
  case Nil
  then show ?case by simp
next
  case (Cons x xs)
  from Cons.prems [of x s] obtain u where u: "body x s = Inr u" by auto
  from Cons.IH [of u] Cons.prems obtain t where "for_each body xs u = Inr t" by auto
  with u show ?case by simp
qed

lemma monthly_date_series_Inr:
  assumes "monthly_date_series self = Inr dates"
  shows "\<exists>deployments capital_returns proceeds.
      generate_deployments self = Inr deployments
    \<and> generate_capital_returns self = Inr capital_returns
    \<and> generate_proceeds self = Inr proceeds"
proof -
  from assms obtain capital_returns where caps: "generate_capital_returns self = Inr capital_returns"
    by (auto simp: monthly_date_series_def split: sum.splits)
  then obtain deployments where deps: "generate_deployments self = Inr deployments"
    by (auto simp: generate_capital_returns_def split: sum.splits)
  define body_c where "body_c = (\<lambda>(dt, val :: real) capital_returns.
               case add_n_months dt (length_of_deployment_in_months self) True of
                 Inl e \<Rightarrow> Inl e
               | Inr key \<Rightarrow> Inr (AList.update key val capital_returns))"
  define body_p where "body_p = (\<lambda>(dt, val) proceeds.
               let amount = npf_fv (irr_per_month self) (length_of_deployment_in_months self) (- val)
               in case add_n_months dt (length_of_deployment_in_months self) True of
                    Inl e \<Rightarrow> Inl e
                  | Inr key \<Rightarrow> Inr (AList.update key amount proceeds))"
  from caps have loop: "for_each body_c deployments [] = Inr capital_returns"
    by (simp add: generate_capital_returns_def deps body_c_def)
  have "\<exists>t. for_each body_p deployments [] = Inr t"
  proof (rule for_each_total)
    fix x s assume "x \<in> set deployments"
    from for_each_steps [OF loop this] obtain u w where "body_c x u = Inr w" by blast
    then obtain key where "add_n_months (fst x) (length_of_deployment_in_months self) True = Inr key"
      by (auto simp: body_c_def split: prod.splits sum.splits)
    then show "\<exists>t. body_p x s = Inr t"
      by (auto simp: body_p_def Let_def split: prod.splits)
  qed
  then obtain proceeds where "generate_proceeds self = Inr proceeds"
    by (auto simp: generate_proceeds_def deps body_p_def)
  with deps caps show ?thesis by blast
qed

lemma monthly_date_series_month_ends:
  assumes "monthly_date_series self = Inr dates" and "d \<in> set dates"
  shows "end_of_month_from_date d = Inr d"
proof -
  from assms(1) obtain a b where "generate_monthly_date_series a b = Inr dates"
    by (auto simp: monthly_date_series_def split: sum.splits)
  from generate_monthly_date_series_Inr [OF this] assms(2)
  obtain k where "representable (year_month_num a + int k)"
    "d = month_end_of (year_month_num a + int k)"
    by (auto simp: in_set_conv_nth)
  then show ?thesis
    by (simp add: end_of_month_from_date_def end_of_month_from_int_eq)
qed

lemma add_n_months_year_one:
  assumes "end_of_month_from_date d = Inr d" and "year_month_num d = 13"
  shows "add_n_months d (- 1) True = Inl ValueError"
proof -
  from add_n_months_minus_one [OF assms(1)]
  have "add_n_months d (- 1) True = end_of_month_from_int (year_month_num d - 1)" by blast
  then show ?thesis
    by (simp add: assms(2) end_of_month_from_int_def datetime_date_def valid_ymd_def)
qed

section \<open>Claims about the prior-period lookup\<close>

lemma year_one_fund_init: "ClosedEndFund_init year_one_fund = Inr year_one_fund"
  by (simp add: year_one_fund_def calendar_eval ClosedEndFund_init_def)

lemma year_one_fund_deployments:
  "generate_deployments year_one_fund =
     Inr [(\<lparr>year = 1, month = 1, day = 31\<rparr>, 50), (\<lparr>year = 1, month = 2, day = 28\<rparr>, 50)]"
  by (simp add: year_one_fund_def calendar_eval generate_deployments_def int_of_quotient_def
      upt_conv_Cons)

lemma year_one_fund_capital_returns:
  "generate_capital_returns year_one_fund =
     Inr [(\<lparr>year = 1, month = 2, day = 28\<rparr>, 50), (\<lparr>year = 1, month = 3, day = 31\<rparr>, 50)]"
  by (simp add: generate_capital_returns_def year_one_fund_deployments)
    (simp add: year_one_fund_def calendar_eval)

lemma year_one_fund_proceeds:
  "\<exists>proceeds. generate_proceeds year_one_fund = Inr proceeds"
  by (simp add: generate_proceeds_def year_one_fund_deployments)
    (simp add: year_one_fund_def calendar_eval)

lemma year_one_fund_dates:
  "monthly_date_series year_one_fund =
     Inr [\<lparr>year = 1, month = 1, day = 31\<rparr>, \<lparr>year = 1, month = 2, day = 28\<rparr>,
          \<lparr>year = 1, month = 3, day = 31\<rparr>]"
  by (simp add: monthly_date_series_def year_one_fund_capital_returns py_max_def)
    (simp add: year_one_fund_def calendar_eval upt_conv_Cons)

text \<open>
  C10, as stated, fails in January of the year 1: \<open>0001-01-31\<close> is a month-end date, and
  \<open>add_n_months\<close> of it and -1 raises ValueError, there being no earlier
  \<open>datetime.date\<close>.  A fund that starts at this date passes the constructor and has a
  monthly date series, and at the first element of the series both recurrences raise
  ValueError instead of falling back to 0.
\<close>

theorem prior_period_lookup_year_one:
  "end_of_month_from_date \<lparr>year = 1, month = 1, day = 31\<rparr> = Inr \<lparr>year = 1, month = 1, day = 31\<rparr>
   \<and> add_n_months \<lparr>year = 1, month = 1, day = 31\<rparr> (- 1) True = Inl ValueError
   \<and> ClosedEndFund_init year_one_fund = Inr year_one_fund
   \<and> monthly_date_series year_one_fund =
       Inr [\<lparr>year = 1, month = 1, day = 31\<rparr>, \<lparr>year = 1, month = 2, day = 28\<rparr>,
            \<lparr>year = 1, month = 3, day = 31\<rparr>]
   \<and> generate_closing_invested_capital year_one_fund = Inl ValueError
   \<and> generate_proceeds_allocations_as_dict year_one_fund = Inl ValueError"
proof -
  obtain proceeds where pr: "generate_proceeds year_one_fund = Inr proceeds"
    using year_one_fund_proceeds by blast
  have a: "add_n_months \<lparr>year = 1, month = 1, day = 31\<rparr> (- 1) True = Inl ValueError"
    by (simp add: calendar_eval)
  have "generate_closing_invested_capital year_one_fund = Inl ValueError"
    by (simp add: generate_closing_invested_capital_def year_one_fund_deployments
        year_one_fund_capital_returns year_one_fund_dates closing_invested_capital_step_def a)
  moreover have "generate_proceeds_allocations_as_dict year_one_fund = Inl ValueError"
    by (simp add: generate_proceeds_allocations_as_dict_def year_one_fund_deployments pr
        year_one_fund_capital_returns year_one_fund_dates allocation_step_def a)
  moreover have "end_of_month_from_date \<lparr>year = 1, month = 1, day = 31\<rparr> = Inr \<lparr>year = 1, month = 1, day = 31\<rparr>"
    by (simp add: calendar_eval)
  ultimately show ?thesis
    using a year_one_fund_init year_one_fund_dates by simp
qed

text \<open>
  C10 (amended).  For every month-end date \<open>d\<close> other than \<open>0001-01-31\<close>,
  \<open>add_n_months d (-1)\<close> with the default flag is the month-end of the month before \<open>d\<close>:
  a month-end date, one month earlier, from which one month forward leads back to \<open>d\<close>;
  for \<open>0001-01-31\<close> it raises ValueError.  Consequently, for a fund that has a monthly
  date series: at every element after the first the date looked up is the preceding
  element; the date looked up at the first element, if there is one, is not in the series.
  If the series starts in January of the year 1, the closing invested capital and the
  waterfall both raise ValueError.  Otherwise the closing invested capital is returned,
  and in it, as in the two tranches of the waterfall whenever it returns its schedules,
  the opening balance of every element after the first is the closing balance of the
  preceding element, and the opening balance of the first element is 0.
\<close>

theorem prior_period_lookup:
  assumes dates: "monthly_date_series self = Inr dates"
  shows "(\<forall>d. end_of_month_from_date d = Inr d \<longrightarrow>
            (if year_month_num d = 13 then add_n_months d (- 1) True = Inl ValueError
             else \<exists>p. add_n_months d (- 1) True = Inr p
                    \<and> end_of_month_from_date p = Inr p
                    \<and> year_month_num p = year_month_num d - 1
                    \<and> date_less p d
                    \<and> add_n_months p 1 True = Inr d))
     \<and> (\<forall>i < length dates. 0 < i \<longrightarrow>
            add_n_months (dates ! i) (- 1) True = Inr (dates ! (i - 1)))
     \<and> (\<forall>p. dates \<noteq> [] \<and> add_n_months (dates ! 0) (- 1) True = Inr p \<longrightarrow> p \<notin> set dates)
     \<and> (dates \<noteq> [] \<and> year_month_num (dates ! 0) = 13 \<longrightarrow>
            generate_closing_invested_capital self = Inl ValueError
          \<and> generate_proceeds_allocations_as_dict self = Inl ValueError)
     \<and> (dates = [] \<or> year_month_num (dates ! 0) \<noteq> 13 \<longrightarrow>
            (\<exists>deployments capital_returns closing_invested_capital.
                generate_deployments self = Inr deployments
              \<and> generate_capital_returns self = Inr capital_returns
              \<and> generate_closing_invested_capital self = Inr closing_invested_capital
              \<and> (\<forall>i < length dates. \<exists>opening.
                     (if i = 0 then opening = 0
                      else map_of closing_invested_capital (dates ! (i - 1)) = Some opening)
                   \<and> map_of closing_invested_capital (dates ! i)
                       = Some (opening + dict_get deployments (dates ! i) 0
                                 - dict_get capital_returns (dates ! i) 0))))
     \<and> (\<forall>s. generate_proceeds_allocations_as_dict self = Inr s \<longrightarrow>
            (\<forall>i < length dates.
                (\<exists>opening.
                    (if i = 0 then opening = PyFloat 0
                     else map_of (lp_preferred_closing s) (dates ! (i - 1)) = Some opening)
                  \<and> map_of (lp_preferred_opening s) (dates ! i) = Some opening)
              \<and> (\<exists>opening.
                    (if i = 0 then opening = PyFloat 0
                     else map_of (catch_up_closing s) (dates ! (i - 1)) = Some opening)
                  \<and> map_of (catch_up_opening s) (dates ! i) = Some opening)))"
proof -
  note chain = monthly_date_series_chain [OF dates]
  from monthly_date_series_Inr [OF dates] obtain deployments capital_returns proceeds
    where deps: "generate_deployments self = Inr deployments"
      and caps: "generate_capital_returns self = Inr capital_returns"
      and pr: "generate_proceeds self = Inr proceeds"
    by blast
  have cic_loop: "generate_closing_invested_capital self
      = for_each (closing_invested_capital_step deployments capital_returns) dates []"
    by (simp add: generate_closing_invested_capital_def deps caps dates)
  have alloc_loop: "generate_proceeds_allocations_as_dict self
      = for_each (allocation_step self deployments proceeds) dates empty_schedules"
    by (simp add: generate_proceeds_allocations_as_dict_def deps pr caps dates)
  have A: "(\<forall>d. end_of_month_from_date d = Inr d \<longrightarrow>
            (if year_month_num d = 13 then add_n_months d (- 1) True = Inl ValueError
             else \<exists>p. add_n_months d (- 1) True = Inr p
                    \<and> end_of_month_from_date p = Inr p
                    \<and> year_month_num p = year_month_num d - 1
                    \<and> date_less p d
                    \<and> add_n_months p 1 True = Inr d))"
  proof (intro allI impI)
    fix d assume d: "end_of_month_from_date d = Inr d"
    note m = add_n_months_minus_one [OF d]
    show "if year_month_num d = 13 then add_n_months d (- 1) True = Inl ValueError
             else \<exists>p. add_n_months d (- 1) True = Inr p
                    \<and> end_of_month_from_date p = Inr p
                    \<and> year_month_num p = year_month_num d - 1
                    \<and> date_less p d
                    \<and> add_n_months p 1 True = Inr d"
    proof (cases "year_month_num d = 13")
      case True
      with add_n_months_year_one [OF d] show ?thesis by simp
    next
      case False
      have "representable (year_month_num d)"
        using month_end_valid [OF d] by (rule valid_date_representable)
      with False have "13 < year_month_num d" by (simp add: representable_def)
      with m obtain p where p: "add_n_months d (- 1) True = Inr p" by blast
      with m have "end_of_month_from_date p = Inr p \<and> year_month_num p = year_month_num d - 1
          \<and> date_less p d \<and> add_n_months p 1 True = Inr d"
        by blast
      with p show ?thesis unfolding if_not_P [OF False] by blast
    qed
  qed
  have B: "(\<forall>i < length dates. 0 < i \<longrightarrow>
            add_n_months (dates ! i) (- 1) True = Inr (dates ! (i - 1)))"
  proof (intro allI impI)
    fix i assume "i < length dates" "0 < i"
    then show "add_n_months (dates ! i) (- 1) True = Inr (dates ! (i - 1))"
      using chain(2) [of "i - 1"] by simp
  qed
  have C: "(\<forall>p. dates \<noteq> [] \<and> add_n_months (dates ! 0) (- 1) True = Inr p \<longrightarrow> p \<notin> set dates)"
    using chain(3) by blast
  have D: "(dates \<noteq> [] \<and> year_month_num (dates ! 0) = 13 \<longrightarrow>
            generate_closing_invested_capital self = Inl ValueError
          \<and> generate_proceeds_allocations_as_dict self = Inl ValueError)"
  proof (intro impI)
    assume a: "dates \<noteq> [] \<and> year_month_num (dates ! 0) = 13"
    then obtain x rest where xs: "dates = x # rest" by (cases dates) auto
    have "end_of_month_from_date x = Inr x"
      by (rule monthly_date_series_month_ends [OF dates]) (simp add: xs)
    from add_n_months_year_one [OF this] a
    have "add_n_months x (- 1) True = Inl ValueError" by (simp add: xs)
    then show "generate_closing_invested_capital self = Inl ValueError
          \<and> generate_proceeds_allocations_as_dict self = Inl ValueError"
      by (simp add: cic_loop alloc_loop xs closing_invested_capital_step_def
          allocation_step_def)
  qed
  have E: "(dates = [] \<or> year_month_num (dates ! 0) \<noteq> 13 \<longrightarrow>
            (\<exists>deployments capital_returns closing_invested_capital.
                generate_deployments self = Inr deployments
              \<and> generate_capital_returns self = Inr capital_returns
              \<and> generate_closing_invested_capital self = Inr closing_invested_capital
              \<and> (\<forall>i < length dates. \<exists>opening.
                     (if i = 0 then opening = 0
                      else map_of closing_invested_capital (dates ! (i - 1)) = Some opening)
                   \<and> map_of closing_invested_capital (dates ! i)
                       = Some (opening + dict_get deployments (dates ! i) 0
                                 - dict_get capital_returns (dates ! i) 0))))"
  proof (intro impI)
    assume a: "dates = [] \<or> year_month_num (dates ! 0) \<noteq> 13"
    have prior_ex: "\<exists>p. add_n_months x (- 1) True = Inr p" if "x \<in> set dates" for x
    proof -
      from that obtain i where i: "i < length dates" "x = dates ! i"
        by (auto simp: in_set_conv_nth)
      show ?thesis
      proof (cases i)
        case 0
        from monthly_date_series_month_ends [OF dates that] A 0 i a show ?thesis
          by (auto split: if_splits)
      next
        case (Suc k)
        with i chain(2) [of k] show ?thesis by simp
      qed
    qed
    have "\<exists>t. for_each (closing_invested_capital_step deployments capital_returns) dates [] = Inr t"
    proof (rule for_each_total)
      fix x s assume "x \<in> set dates"
      from prior_ex [OF this] show "\<exists>t. closing_invested_capital_step deployments capital_returns x s = Inr t"
        by (auto simp: closing_invested_capital_step_def Let_def)
    qed
    then obtain closing_invested_capital
      where loop1: "for_each (closing_invested_capital_step deployments capital_returns) dates []
          = Inr closing_invested_capital"
      by blast
    have c1: "dom (map_of closing_invested_capital) = set dates
       \<and> (\<forall>i < length dates. \<exists>b.
            (if i = 0 then b = 0 else map_of closing_invested_capital (dates ! (i - 1)) = Some b)
          \<and> map_of closing_invested_capital (dates ! i)
              = Some (b + dict_get deployments (dates ! i) 0 - dict_get capital_returns (dates ! i) 0))"
    proof (rule for_each_chain [where cl = map_of and prior = "\<lambda>x. add_n_months x (- 1) True"
          and G = "\<lambda>x b w. map_of w x
              = Some (b + dict_get deployments x 0 - dict_get capital_returns x 0)", OF loop1])
      show "map_of ([] :: (date, real) dict) = Map.empty" by simp
      show "\<exists>p v. add_n_months x (- 1) True = Inr p \<and> map_of w = (map_of u)(x \<mapsto> v)
          \<and> map_of w x = Some ((case map_of u p of None \<Rightarrow> 0 | Some c \<Rightarrow> c)
                + dict_get deployments x 0 - dict_get capital_returns x 0)"
        if "closing_invested_capital_step deployments capital_returns x u = Inr w" for x u w
        using that by (rule closing_invested_capital_step_Inr)
      show "map_of w y = Some (b + dict_get deployments y 0 - dict_get capital_returns y 0)"
        if "closing_invested_capital_step deployments capital_returns x u = Inr w" "y \<noteq> x"
          "map_of u y = Some (b + dict_get deployments y 0 - dict_get capital_returns y 0)"
        for x y b u w
      proof -
        from closing_invested_capital_step_Inr [OF that(1)]
        obtain v where "map_of w = (map_of u)(x \<mapsto> v)" by blast
        with that(2,3) show ?thesis by simp
      qed
    qed (use chain in simp_all)
    from c1 have "\<forall>i < length dates. \<exists>opening.
                     (if i = 0 then opening = 0
                      else map_of closing_invested_capital (dates ! (i - 1)) = Some opening)
                   \<and> map_of closing_invested_capital (dates ! i)
                       = Some (opening + dict_get deployments (dates ! i) 0
                                 - dict_get capital_returns (dates ! i) 0)"
      by blast
    with deps caps loop1 cic_loop
    show "\<exists>deployments capital_returns closing_invested_capital.
                generate_deployments self = Inr deployments
              \<and> generate_capital_returns self = Inr capital_returns
              \<and> generate_closing_invested_capital self = Inr closing_invested_capital
              \<and> (\<forall>i < length dates. \<exists>opening.
                     (if i = 0 then opening = 0
                      else map_of closing_invested_capital (dates ! (i - 1)) = Some opening)
                   \<and> map_of closing_invested_capital (dates ! i)
                       = Some (opening + dict_get deployments (dates ! i) 0
                                 - dict_get capital_returns (dates ! i) 0))"
      by auto
  qed
  have F: "(\<forall>s. generate_proceeds_allocations_as_dict self = Inr s \<longrightarrow>
            (\<forall>i < length dates.
                (\<exists>opening.
                    (if i = 0 then opening = PyFloat 0
                     else map_of (lp_preferred_closing s) (dates ! (i - 1)) = Some opening)
                  \<and> map_of (lp_preferred_opening s) (dates ! i) = Some opening)
              \<and> (\<exists>opening.
                    (if i = 0 then opening = PyFloat 0
                     else map_of (catch_up_closing s) (dates ! (i - 1)) = Some opening)
                  \<and> map_of (catch_up_opening s) (dates ! i) = Some opening)))"
  proof (intro allI impI)
    fix s i assume alloc: "generate_proceeds_allocations_as_dict self = Inr s"
      and i: "i < length dates"
    from alloc have loop2:
      "for_each (allocation_step self deployments proceeds) dates empty_schedules = Inr s"
      by (simp add: alloc_loop)
    have c2: "dom (map_of (lp_preferred_closing s)) = set dates
       \<and> (\<forall>i < length dates. \<exists>b.
            (if i = 0 then b = PyFloat 0
             else map_of (lp_preferred_closing s) (dates ! (i - 1)) = Some b)
          \<and> map_of (lp_preferred_opening s) (dates ! i) = Some b)"
    proof (rule for_each_chain [where cl = "\<lambda>s. map_of (lp_preferred_closing s)"
          and prior = "\<lambda>x. add_n_months x (- 1) True"
          and G = "\<lambda>x b w. map_of (lp_preferred_opening w) x = Some b", OF loop2])
      show "map_of (lp_preferred_closing empty_schedules) = Map.empty"
        by (simp add: empty_schedules_def)
      show "\<exists>p v. add_n_months x (- 1) True = Inr p
          \<and> map_of (lp_preferred_closing w) = (map_of (lp_preferred_closing u))(x \<mapsto> v)
          \<and> map_of (lp_preferred_opening w) x
              = Some (case map_of (lp_preferred_closing u) p of None \<Rightarrow> PyFloat 0 | Some c \<Rightarrow> c)"
        if "allocation_step self deployments proceeds x u = Inr w" for x u w
        using that by (rule allocation_step_closing(1))
      show "map_of (lp_preferred_opening w) y = Some b"
        if "allocation_step self deployments proceeds x u = Inr w" "y \<noteq> x"
          "map_of (lp_preferred_opening u) y = Some b"
        for x y b u w
        using allocation_step_other(1) [OF that(1,2)] that(3) by simp
    qed (use chain in simp_all)
    have c3: "dom (map_of (catch_up_closing s)) = set dates
       \<and> (\<forall>i < length dates. \<exists>b.
            (if i = 0 then b = PyFloat 0
             else map_of (catch_up_closing s) (dates ! (i - 1)) = Some b)
          \<and> map_of (catch_up_opening s) (dates ! i) = Some b)"
    proof (rule for_each_chain [where cl = "\<lambda>s. map_of (catch_up_closing s)"
          and prior = "\<lambda>x. add_n_months x (- 1) True"
          and G = "\<lambda>x b w. map_of (catch_up_opening w) x = Some b", OF loop2])
      show "map_of (catch_up_closing empty_schedules) = Map.empty"
        by (simp add: empty_schedules_def)
      show "\<exists>p v. add_n_months x (- 1) True = Inr p
          \<and> map_of (catch_up_closing w) = (map_of (catch_up_closing u))(x \<mapsto> v)
          \<and> map_of (catch_up_opening w) x
              = Some (case map_of (catch_up_closing u) p of None \<Rightarrow> PyFloat 0 | Some c \<Rightarrow> c)"
        if "allocation_step self deployments proceeds x u = Inr w" for x u w
        using that by (rule allocation_step_closing(2))
      show "map_of (catch_up_opening w) y = Some b"
        if "allocation_step self deployments proceeds x u = Inr w" "y \<noteq> x"
          "map_of (catch_up_opening u) y = Some b"
        for x y b u w
        using allocation_step_other(5) [OF that(1,2)] that(3) by simp
    qed (use chain in simp_all)
    show "(\<exists>opening.
                    (if i = 0 then opening = PyFloat 0
                     else map_of (lp_preferred_closing s) (dates ! (i - 1)) = Some opening)
                  \<and> map_of (lp_preferred_opening s) (dates ! i) = Some opening)
              \<and> (\<exists>opening.
                    (if i = 0 then opening = PyFloat 0
                     else map_of (catch_up_closing s) (dates ! (i - 1)) = Some opening)
                  \<and> map_of (catch_up_opening s) (dates ! i) = Some opening)"
      using c2 c3 i by blast
  qed
  show ?thesis
    by (intro conjI) (rule A B C D E F)+
qed

theorem prior_period_lookup_witness:
  "add_n_months \<lparr>year = 2021, month = 3, day = 31\<rparr> (- 1) True
     = Inr \<lparr>year = 2021, month = 2, day = 28\<rparr>
   \<and> (\<exists>deployments capital_returns closing_invested_capital.
         generate_deployments small_fund = Inr deployments
       \<and> generate_capital_returns small_fund = Inr capital_returns
       \<and> generate_closing_invested_capital small_fund = Inr closing_invested_capital
       \<and> (\<exists>opening.
             map_of closing_invested_capital \<lparr>year = 2021, month = 2, day = 28\<rparr> = Some opening
           \<and> map_of closing_invested_capital \<lparr>year = 2021, month = 3, day = 31\<rparr>
               = Some (opening + dict_get deployments \<lparr>year = 2021, month = 3, day = 31\<rparr> 0
                         - dict_get capital_returns \<lparr>year = 2021, month = 3, day = 31\<rparr> 0)))
   \<and> (\<exists>opening.
         map_of (lp_preferred_closing small_fund_schedules) \<lparr>year = 2021, month = 2, day = 28\<rparr>
           = Some opening
       \<and> map_of (lp_preferred_opening small_fund_schedules) \<lparr>year = 2021, month = 3, day = 31\<rparr>
           = Some opening)
   \<and> (\<exists>opening.
         map_of (catch_up_closing small_fund_schedules) \<lparr>year = 2021, month = 2, day = 28\<rparr>
           = Some opening
       \<and> map_of (catch_up_opening small_fund_schedules) \<lparr>year = 2021, month = 3, day = 31\<rparr>
           = Some opening)
   \<and> generate_closing_invested_capital year_one_fund = Inl ValueError
   \<and> generate_proceeds_allocations_as_dict year_one_fund = Inl ValueError"
proof -
  let ?dates = "[\<lparr>year = 2021, month = 1, day = 31\<rparr>, \<lparr>year = 2021, month = 2, day = 28\<rparr>,
          \<lparr>year = 2021, month = 3, day = 31\<rparr>, \<lparr>year = 2021, month = 4, day = 30\<rparr>]"
  let ?year_one = "[\<lparr>year = 1, month = 1, day = 31\<rparr>, \<lparr>year = 1, month = 2, day = 28\<rparr>,
          \<lparr>year = 1, month = 3, day = 31\<rparr>]"
  note t = prior_period_lookup [OF small_fund_dates]
  note t' = prior_period_lookup [OF year_one_fund_dates]
  have i: "2 < length ?dates" "(0 :: nat) < 2" "2 \<noteq> (0 :: nat)" by simp_all
  from t have "\<forall>i < length ?dates. 0 < i \<longrightarrow>
      add_n_months (?dates ! i) (- 1) True = Inr (?dates ! (i - 1))"
    by blast
  with i have "add_n_months (?dates ! 2) (- 1) True = Inr (?dates ! (2 - 1))" by blast
  then have a: "add_n_months \<lparr>year = 2021, month = 3, day = 31\<rparr> (- 1) True
     = Inr \<lparr>year = 2021, month = 2, day = 28\<rparr>"
    by simp
  have n: "?dates = [] \<or> year_month_num (?dates ! 0) \<noteq> 13"
    by (simp add: year_month_num_def)
  from t n obtain deployments capital_returns closing_invested_capital
    where r: "generate_deployments small_fund = Inr deployments"
      "generate_capital_returns small_fund = Inr capital_returns"
      "generate_closing_invested_capital small_fund = Inr closing_invested_capital"
      and l: "\<forall>i < length ?dates. \<exists>opening.
                     (if i = 0 then opening = 0
                      else map_of closing_invested_capital (?dates ! (i - 1)) = Some opening)
                   \<and> map_of closing_invested_capital (?dates ! i)
                       = Some (opening + dict_get deployments (?dates ! i) 0
                                 - dict_get capital_returns (?dates ! i) 0)"
    by blast
  from l i obtain ob
    where "if 2 = (0 :: nat) then ob = 0
           else map_of closing_invested_capital (?dates ! (2 - 1)) = Some ob"
      "map_of closing_invested_capital (?dates ! 2)
         = Some (ob + dict_get deployments (?dates ! 2) 0
                   - dict_get capital_returns (?dates ! 2) 0)"
    by blast
  then have o: "map_of closing_invested_capital \<lparr>year = 2021, month = 2, day = 28\<rparr> = Some ob"
    "map_of closing_invested_capital \<lparr>year = 2021, month = 3, day = 31\<rparr>
       = Some (ob + dict_get deployments \<lparr>year = 2021, month = 3, day = 31\<rparr> 0
                 - dict_get capital_returns \<lparr>year = 2021, month = 3, day = 31\<rparr> 0)"
    by simp_all
  from r o have b: "\<exists>deployments capital_returns closing_invested_capital.
         generate_deployments small_fund = Inr deployments
       \<and> generate_capital_returns small_fund = Inr capital_returns
       \<and> generate_closing_invested_capital small_fund = Inr closing_invested_capital
       \<and> (\<exists>opening.
             map_of closing_invested_capital \<lparr>year = 2021, month = 2, day = 28\<rparr> = Some opening
           \<and> map_of closing_invested_capital \<lparr>year = 2021, month = 3, day = 31\<rparr>
               = Some (opening + dict_get deployments \<lparr>year = 2021, month = 3, day = 31\<rparr> 0
                         - dict_get capital_returns \<lparr>year = 2021, month = 3, day = 31\<rparr> 0))"
    by blast
  from t i small_fund_allocations
  have "(\<exists>opening.
            (if 2 = (0 :: nat) then opening = PyFloat 0
             else map_of (lp_preferred_closing small_fund_schedules) (?dates ! (2 - 1))
                    = Some opening)
          \<and> map_of (lp_preferred_opening small_fund_schedules) (?dates ! 2) = Some opening)
      \<and> (\<exists>opening.
            (if 2 = (0 :: nat) then opening = PyFloat 0
             else map_of (catch_up_closing small_fund_schedules) (?dates ! (2 - 1))
                    = Some opening)
          \<and> map_of (catch_up_opening small_fund_schedules) (?dates ! 2) = Some opening)"
    by blast
  then have c: "(\<exists>opening.
         map_of (lp_preferred_closing small_fund_schedules) \<lparr>year = 2021, month = 2, day = 28\<rparr>
           = Some opening
       \<and> map_of (lp_preferred_opening small_fund_schedules) \<lparr>year = 2021, month = 3, day = 31\<rparr>
           = Some opening)
   \<and> (\<exists>opening.
         map_of (catch_up_closing small_fund_schedules) \<lparr>year = 2021, month = 2, day = 28\<rparr>
           = Some opening
       \<and> map_of (catch_up_opening small_fund_schedules) \<lparr>year = 2021, month = 3, day = 31\<rparr>
           = Some opening)"
    by simp
  have y: "?year_one \<noteq> [] \<and> year_month_num (?year_one ! 0) = 13"
    by (simp add: year_month_num_def)
  from t' y have e: "generate_closing_invested_capital year_one_fund = Inl ValueError
      \<and> generate_proceeds_allocations_as_dict year_one_fund = Inl ValueError"
    by blast
  from a b c e show ?thesis by blast
qed

section \<open>Facts about totality\<close>

lemma for_each_total_inv:
  assumes "P s" and "\<And>x s. x \<in> set xs \<Longrightarrow> P s \<Longrightarrow> \<exists>t. body x s = Inr t \<and> P t"
  shows "\<exists>t. for_each body xs s = Inr t \<and> P t"
  using assms
proof (induction xs arbitrary: s)
  case Nil
  then show ?case by simp
next
  case (Cons x xs)
  from Cons.prems(2) [of x s] Cons.prems(1) obtain u where u: "body x s = Inr u" "P u" by auto
  have "\<exists>t. for_each body xs u = Inr t \<and> P t"
  proof (rule Cons.IH [OF u(2)])
    show "\<exists>t. body y v = Inr t \<and> P t" if "y \<in> set xs" "P v" for y v
      using Cons.prems(2) [of y v] that by simp
  qed
  with u show ?case by simp
qed

lemma py_max_Inr:
  assumes "ds \<noteq> []"
  shows "\<exists>b \<in> set ds. py_max ds = Inr b"
proof -
  have mem: "foldl (\<lambda>best x. if date_less best x then x else best) d rest \<in> set (d # rest)"
    for d rest
  proof (induction rest arbitrary: d)
    case Nil
    then show ?case by simp
  next
    case (Cons y ys)
    from Cons.IH [of "if date_less d y then y else d"] show ?case by auto
  qed
  from assms obtain d rest where ds: "ds = d # rest" by (cases ds) auto
  with mem [of d rest] show ?thesis by (simp add: py_max_def)
qed

lemma days_in_year_Inr:
  assumes "1 \<le> year dt" and "year dt \<le> 9998"
  shows "\<exists>n. days_in_year dt = Inr n \<and> n \<noteq> 0"
proof -
  define y where "y = year dt"
  have v1: "valid_ymd (y + 1) 1 1" and v2: "valid_ymd y 1 1"
    using assms by (simp_all add: valid_ymd_def monthrange_def mdays_def y_def)
  have a: "0 \<le> y div 4 - (y - 1) div 4" by (simp add: zdiv_mono1)
  have "y div 100 \<le> (y - 1 + 100) div 100" by (rule zdiv_mono1) simp_all
  then have b: "y div 100 - (y - 1) div 100 \<le> 1" by simp
  have c: "0 \<le> y div 400 - (y - 1) div 400" by (simp add: zdiv_mono1)
  have "days_before_year (y + 1) - days_before_year y
      = 365 + (y div 4 - (y - 1) div 4) - (y div 100 - (y - 1) div 100)
          + (y div 400 - (y - 1) div 400)"
    by (simp add: days_before_year_def algebra_simps)
  with a b c have "0 < days_before_year (y + 1) - days_before_year y" by linarith
  then have "toordinal \<lparr>year = y + 1, month = 1, day = 1\<rparr> - toordinal \<lparr>year = y, month = 1, day = 1\<rparr> \<noteq> 0"
    by (simp add: toordinal_def days_before_month_def)
  then show ?thesis
    using v1 v2 by (simp add: days_in_year_def datetime_date_def flip: y_def)
qed

lemma comparable_simps [simp]:
  "comparable (PyFloat x)" "comparable (NpFloat64 x)" "comparable (NpComplex128 z)"
  "\<not> comparable (PyComplex z)"
  by (simp_all add: comparable_def)

lemma comparable_binop:
  assumes "comparable a" and "comparable b"
  shows "comparable (py_add a b)" "comparable (py_sub a b)" "comparable (py_mul a b)"
    "comparable (py_div a b)"
  using assms by (auto simp: comparable_def)

lemma comparable_dict_get:
  assumes "\<forall>k v. map_of d k = Some v \<longrightarrow> comparable v"
  shows "comparable (dict_get d k (PyFloat 0))"
  using assms by (simp add: dict_get_def split: option.splits)

lemma py_lt_comparable:
  assumes "comparable a" and "comparable b"
  shows "py_lt a b = Inr (lex_less (cval a) (cval b))"
  using assms by (auto simp: py_lt_def comparable_def)

lemma py_gt_comparable:
  assumes "comparable a" and "comparable b"
  shows "py_gt a b = Inr (lex_less (cval b) (cval a))"
  using assms by (simp add: py_gt_def py_lt_comparable)

lemma py_min_comparable:
  assumes "comparable a" and "comparable b"
  shows "\<exists>m. py_min a b = Inr m \<and> comparable m"
  using assms by (simp add: py_min_def py_lt_comparable)

lemma comparable_irr_hurdle_per_month:
  "comparable (irr_hurdle_per_month self) \<longleftrightarrow> 0 \<le> 1 + annual_effective_irr_hurdle self"
  by (auto simp: comparable_def irr_hurdle_per_month_def twelfth_root_def)

lemma allocation_step_total:
  assumes prior: "add_n_months dt (- 1) True = Inr prior"
    and hurdle: "comparable (irr_hurdle_per_month self)"
    and p: "comparable (dict_get proceeds dt (PyFloat 0))"
    and l: "comparable (dict_get (lp_preferred_closing s) prior (PyFloat 0))"
    and c: "comparable (dict_get (catch_up_closing s) prior (PyFloat 0))"
  shows "carry_percent self = 1 / 2 \<Longrightarrow>
           allocation_step self deployments proceeds dt s = Inl ZeroDivisionError"
    and "carry_percent self \<noteq> 1 / 2 \<Longrightarrow>
           \<exists>t. allocation_step self deployments proceeds dt s = Inr t"
proof -
  define r where "r = allocation_step self deployments proceeds dt s"
  define proceed where "proceed = dict_get proceeds dt (PyFloat 0)"
  define lo where "lo = dict_get (lp_preferred_closing s) prior (PyFloat 0)"
  define co where "co = dict_get (catch_up_closing s) prior (PyFloat 0)"
  define dep where "dep = dict_get deployments dt 0"
  define lg where "lg = py_mul lo (irr_hurdle_per_month self)"
  define due where "due = py_add (py_add lo lg) (PyFloat dep)"
  define ca where "ca = py_mul
                 (py_mul lg (PyFloat (carry_percent self / (0.5 - carry_percent self) * 0.5)))
                 (PyFloat (if carry_catch_up self then 1 else 0))"
  have eq: "allocation_step self deployments proceeds dt s = r" by (simp add: r_def)
  note e1 = eq [unfolded allocation_step_def Let_def prior sum.case,
      folded proceed_def lo_def co_def dep_def, folded lg_def, folded due_def ca_def]
  have ok: "comparable proceed" "comparable lo" "comparable co"
    using p l c by (simp_all add: proceed_def lo_def co_def)
  have ok_lg: "comparable lg" using ok hurdle by (simp add: lg_def comparable_binop)
  have ok_due: "comparable due" using ok ok_lg by (simp add: due_def comparable_binop)
  have ok_ca: "comparable ca" using ok_lg by (simp add: ca_def comparable_binop)
  from py_min_comparable [OF ok(1) ok_due] obtain lpay
    where lpay: "py_min proceed due = Inr lpay" and ok_lpay: "comparable lpay"
    by blast
  note e2 = e1 [unfolded lpay sum.case]
  show "allocation_step self deployments proceeds dt s = Inl ZeroDivisionError"
    if "carry_percent self = 1 / 2"
  proof -
    have z: "0.5 - carry_percent self = 0" using that by simp
    from e2 [unfolded if_P [OF z]] show ?thesis by (simp add: r_def)
  qed
  show "\<exists>t. allocation_step self deployments proceeds dt s = Inr t"
    if "carry_percent self \<noteq> 1 / 2"
  proof -
    have nz: "\<not> 0.5 - carry_percent self = 0" using that by simp
    note e3 = e2 [unfolded if_not_P [OF nz]]
    obtain surplus where gt: "py_gt proceed lpay = Inr surplus"
      using py_gt_comparable [OF ok(1) ok_lpay] by blast
    note e4 = e3 [unfolded gt sum.case]
    have "\<exists>t. r = Inr t"
    proof (cases surplus)
      case False
      from e4 [unfolded if_not_P [OF False]] show ?thesis by auto
    next
      case True
      note e5 = e4 [unfolded if_P [OF True]]
      have "comparable (py_div (py_add co ca) (PyFloat 0.5))" "comparable (py_sub proceed lpay)"
        using ok ok_ca ok_lpay by (simp_all add: comparable_binop)
      from py_min_comparable [OF this] obtain cp
        where cp: "py_min (py_div (py_add co ca) (PyFloat 0.5)) (py_sub proceed lpay) = Inr cp"
          and ok_cp: "comparable cp"
        by blast
      note e6 = e5 [unfolded cp sum.case]
      have "comparable (py_add lpay cp)" using ok_lpay ok_cp by (simp add: comparable_binop)
      from py_gt_comparable [OF ok(1) this] obtain remainder
        where rem: "py_gt proceed (py_add lpay cp) = Inr remainder" by blast
      note e7 = e6 [unfolded rem sum.case]
      show ?thesis
      proof (cases remainder)
        case False
        from e7 [unfolded if_not_P [OF False]] show ?thesis by auto
      next
        case rTrue: True
        from e7 [unfolded if_P [OF rTrue]] show ?thesis by auto
      qed
    qed
    then show ?thesis by (simp add: r_def)
  qed
qed

lemma waterfall_row_comparable:
  assumes row: "waterfall_row self dep proceed lo co t dt"
    and hurdle: "comparable (irr_hurdle_per_month self)"
    and ok: "comparable proceed" "comparable lo" "comparable co"
  shows "\<exists>lc cc. map_of (lp_preferred_closing t) dt = Some lc \<and> comparable lc
      \<and> map_of (catch_up_closing t) dt = Some cc \<and> comparable cc"
proof -
  define lg where "lg = py_mul lo (irr_hurdle_per_month self)"
  define due where "due = py_add (py_add lo lg) (PyFloat dep)"
  define ca where "ca = py_mul
                 (py_mul lg (PyFloat (carry_percent self / (0.5 - carry_percent self) * 0.5)))
                 (PyFloat (if carry_catch_up self then 1 else 0))"
  define x where "x = py_div (py_add co ca) (PyFloat 0.5)"
  note row1 = row [unfolded waterfall_row_def Let_def, folded lg_def, folded due_def ca_def,
      folded x_def]
  have ok_lg: "comparable lg" using ok hurdle by (simp add: lg_def comparable_binop)
  have ok_due: "comparable due" using ok ok_lg by (simp add: due_def comparable_binop)
  have ok_ca: "comparable ca" using ok_lg by (simp add: ca_def comparable_binop)
  have ok_x: "comparable x" using ok ok_ca by (simp add: x_def comparable_binop)
  from row1 obtain lpay where lpay: "py_min proceed due = Inr lpay"
    by (cases "py_min proceed due") simp_all
  note row2 = row1 [unfolded lpay sum.case]
  from py_min_Inr [OF lpay] ok(1) ok_due have ok_lpay: "comparable lpay"
    by (simp split: if_splits)
  from row2 obtain surplus where gt: "py_gt proceed lpay = Inr surplus"
    by (cases "py_gt proceed lpay") simp_all
  note row3 = row2 [unfolded gt sum.case]
  from row3 have lc: "map_of (lp_preferred_closing t) dt = Some (py_sub due lpay)" by simp
  have ok_lc: "comparable (py_sub due lpay)" using ok_due ok_lpay by (simp add: comparable_binop)
  have "\<exists>cc. map_of (catch_up_closing t) dt = Some cc \<and> comparable cc"
  proof (cases surplus)
    case False
    from row3 [unfolded if_not_P [OF False]]
    have "map_of (catch_up_closing t) dt = Some (py_add co ca)" by simp
    moreover have "comparable (py_add co ca)" using ok ok_ca by (simp add: comparable_binop)
    ultimately show ?thesis by blast
  next
    case True
    note row4 = row3 [unfolded if_P [OF True]]
    from row4 obtain cp where cp: "py_min x (py_sub proceed lpay) = Inr cp"
      by (cases "py_min x (py_sub proceed lpay)") simp_all
    note row5 = row4 [unfolded cp sum.case]
    have "comparable (py_sub proceed lpay)" using ok ok_lpay by (simp add: comparable_binop)
    with py_min_Inr [OF cp] ok_x have ok_cp: "comparable cp"
      by (simp split: if_splits)
    from row5 have "map_of (catch_up_closing t) dt
        = Some (py_sub (py_add co ca) (py_mul cp (PyFloat 0.5)))"
      by simp
    moreover have "comparable (py_sub (py_add co ca) (py_mul cp (PyFloat 0.5)))"
      using ok ok_ca ok_cp by (simp add: comparable_binop)
    ultimately show ?thesis by blast
  qed
  with lc ok_lc show ?thesis by blast
qed

lemma shifted_dict_eq:
  assumes valid: "\<And>dt v. (dt, v) \<in> set deployments \<Longrightarrow>
        valid_date dt \<and> representable (year_month_num dt + n)"
    and dist: "distinct (map (\<lambda>(dt, v). year_month_num dt) deployments)"
    and body: "\<And>dt v s. body (dt, v) s =
        (case add_n_months dt n True of Inl e \<Rightarrow> Inl e | Inr key \<Rightarrow> Inr (AList.update key (f v) s))"
  shows "for_each body deployments [] =
     Inr (map (\<lambda>(dt, v). (month_end_of (year_month_num dt + n), f v)) deployments)"
proof -
  have "for_each body deployments [] =
     Inr ([] @ map (\<lambda>x. (month_end_of (year_month_num (fst x) + n), f (snd x))) deployments)"
  proof (rule for_each_update_fresh)
    fix x s assume x: "x \<in> set deployments"
    obtain dt v where xv: "x = (dt, v)" by (cases x)
    with valid [of dt v] x have "valid_date dt" "representable (year_month_num dt + n)"
      by simp_all
    then show "body x s = Inr (AList.update (month_end_of (year_month_num (fst x) + n)) (f (snd x)) s)"
      by (simp add: xv body add_n_months_True end_of_month_from_int_eq)
  next
    have "map (\<lambda>x. month_end_of (year_month_num (fst x) + n)) deployments
        = map (\<lambda>i. month_end_of (i + n)) (map (\<lambda>(dt, v). year_month_num dt) deployments)"
      by (simp add: case_prod_beta comp_def)
    moreover have "inj (\<lambda>i. month_end_of (i + n))"
      by (simp add: inj_def month_end_of_inj)
    ultimately show "distinct (map (\<lambda>x. month_end_of (year_month_num (fst x) + n)) deployments)"
      using dist by (simp add: distinct_map inj_on_def inj_def)
  next
    show "fst ` set [] \<inter> (\<lambda>x. month_end_of (year_month_num (fst x) + n)) ` set deployments = {}"
      by simp
  qed
  then show ?thesis by (simp add: case_prod_beta)
qed


lemma ym_year_bounds:
  assumes "13 \<le> i" and "i \<le> 119988"
  shows "1 \<le> ym_year i \<and> ym_year i \<le> 9998"
proof -
  define y where "y = ym_year i"
  define m where "m = ym_month i"
  have "y * 12 + m = i" "1 \<le> m" "m \<le> 12"
    using decode_sum [of i] decode_month_range [of i] by (simp_all add: y_def m_def)
  with assms have "1 \<le> y \<and> y \<le> 9998" by linarith
  then show ?thesis by (simp add: y_def)
qed

lemma twelfth_root_negative:
  "x < 0 \<Longrightarrow> twelfth_root x = PyComplex (of_real ((- x) powr (1 / 12)) * cis (pi / 12))"
  by (simp add: twelfth_root_def)

lemmas fund_eval = small_fund_def ClosedEndFund_init_def generate_deployments_def
  generate_proceeds_def generate_capital_returns_def monthly_date_series_def
  generate_proceeds_allocations_as_dict_def allocation_step_def
  int_of_quotient_def py_max_def dict_get_def npf_fv_def irr_per_month_def
  irr_hurdle_per_month_def twelfth_root_4096 twelfth_root_531441 twelfth_root_negative
  empty_schedules_def upt_conv_Cons calendar_eval pynum_eval

section \<open>Claims about totality\<close>

text \<open>
  C3, as stated, fails in both directions.  A fund with no month of deployment passes the
  constructor, and \<open>generate_deployments\<close> divides the committed capital by 0 deployments.
  A fund with an annual hurdle rate of minus 200 percent passes the constructor, and the
  waterfall raises TypeError when \<open>min\<close> compares the complex amount due with the proceed 0.
  And with \<open>carry_percent = 0.5\<close> the waterfall does not fail when the monthly date series
  is empty, as it is when the capital is returned before the fund starts.
\<close>

theorem schedule_generation_not_total:
  "ClosedEndFund_init (small_fund\<lparr>number_of_months_of_deployment := 0\<rparr>)
     = Inr (small_fund\<lparr>number_of_months_of_deployment := 0\<rparr>)
   \<and> carry_percent (small_fund\<lparr>number_of_months_of_deployment := 0\<rparr>) \<noteq> 0.5
   \<and> generate_deployments (small_fund\<lparr>number_of_months_of_deployment := 0\<rparr>)
     = Inl ZeroDivisionError
   \<and> ClosedEndFund_init (small_fund\<lparr>annual_effective_irr_hurdle := - 2\<rparr>)
     = Inr (small_fund\<lparr>annual_effective_irr_hurdle := - 2\<rparr>)
   \<and> carry_percent (small_fund\<lparr>annual_effective_irr_hurdle := - 2\<rparr>) \<noteq> 0.5
   \<and> generate_proceeds_allocations_as_dict (small_fund\<lparr>annual_effective_irr_hurdle := - 2\<rparr>)
     = Inl TypeError
   \<and> ClosedEndFund_init
       (small_fund\<lparr>carry_percent := 0.5, length_of_deployment_in_months := - 3\<rparr>)
     = Inr (small_fund\<lparr>carry_percent := 0.5, length_of_deployment_in_months := - 3\<rparr>)
   \<and> generate_proceeds_allocations_as_dict
       (small_fund\<lparr>carry_percent := 0.5, length_of_deployment_in_months := - 3\<rparr>)
     = Inr empty_schedules"
  by (intro conjI; simp add: fund_eval)

text \<open>
  C3 (amended).  For a fund returned by the constructor with a positive interval between
  deployments and a positive number of months of deployment, a holding period that is not
  negative, a fund start after January of the year 1, a last capital return not after the
  year 9998 and an annual hurdle rate of at least minus 100 percent: the deployments, the
  proceeds, the capital returns, the profits, the monthly date series, the closing invested
  capital, the fee-paying capital and the management fees are all returned, and the
  waterfall raises ZeroDivisionError if \<open>carry_percent\<close> is 0.5 and returns its schedules
  otherwise.
\<close>

theorem schedule_generation_total:
  assumes init: "ClosedEndFund_init args = Inr self"
    and step_pos: "0 < number_of_months_in_between_deployments self"
    and months_pos: "0 < number_of_months_of_deployment self"
    and len: "0 \<le> length_of_deployment_in_months self"
    and lo: "13 < year_month_num (fund_start_date self)"
    and hi: "year_month_num (deployment_start_date self) + number_of_months_of_deployment self
               - number_of_months_in_between_deployments self
               + length_of_deployment_in_months self \<le> 119988"
    and hurdle: "0 \<le> 1 + annual_effective_irr_hurdle self"
  shows "(\<exists>x. generate_deployments self = Inr x)
     \<and> (\<exists>x. generate_proceeds self = Inr x)
     \<and> (\<exists>x. generate_capital_returns self = Inr x)
     \<and> (\<exists>x. generate_profits self = Inr x)
     \<and> (\<exists>x. monthly_date_series self = Inr x)
     \<and> (\<exists>x. generate_closing_invested_capital self = Inr x)
     \<and> (\<exists>x. generate_fee_paying_capital self = Inr x)
     \<and> (\<exists>x. generate_mgmt_fees self = Inr x)
     \<and> (if carry_percent self = 1 / 2
         then generate_proceeds_allocations_as_dict self = Inl ZeroDivisionError
         else \<exists>x. generate_proceeds_allocations_as_dict self = Inr x)"
proof -
  note fund = ClosedEndFund_init_Inr [OF init]
  define step where "step = number_of_months_in_between_deployments self"
  define n where "n = number_of_months_of_deployment self div step"
  define i\<^sub>d where "i\<^sub>d = year_month_num (deployment_start_date self)"
  define i\<^sub>f where "i\<^sub>f = year_month_num (fund_start_date self)"
  define L where "L = length_of_deployment_in_months self"
  define amount where "amount = committed_capital self / of_int n"
  have months: "number_of_months_of_deployment self = n * step"
    using fund(8) div_mult_mod_eq [of "number_of_months_of_deployment self" step]
    by (simp add: n_def step_def)
  have sp: "0 < step" using step_pos by (simp add: step_def)
  have n: "0 < n"
    using months_pos sp by (simp add: months zero_less_mult_iff)
  have ri: "representable i\<^sub>d"
    using fund(3) by (simp add: i\<^sub>d_def valid_date_representable)
  have fd: "13 < i\<^sub>f" "i\<^sub>f \<le> i\<^sub>d"
    using lo fund(6) by (simp_all add: i\<^sub>f_def i\<^sub>d_def)
  have last: "0 \<le> (n - 1) * step" "i\<^sub>d + (n - 1) * step + L \<le> 119988"
    using n sp hi by (simp_all add: months algebra_simps L_def flip: i\<^sub>d_def step_def)
  have Lp: "0 \<le> L" using len by (simp add: L_def)
  have rl: "representable (i\<^sub>d + (n - 1) * step)"
    using ri last Lp by (simp add: representable_def)
  have kstep: "0 \<le> int k * step \<and> int k * step \<le> (n - 1) * step" if "k < nat n" for k
  proof -
    from that have "int k \<le> n - 1" by simp
    then have "int k * step \<le> (n - 1) * step" using sp by (simp add: mult_right_mono)
    moreover have "0 \<le> int k * step" using sp by simp
    ultimately show ?thesis by simp
  qed
  define deps where "deps = map (\<lambda>k. (month_end_of (i\<^sub>d + int k * step), amount)) [0..<nat n]"
  have deps: "generate_deployments self = Inr deps"
  proof -
    have "0 < number_of_months_of_deployment self div number_of_months_in_between_deployments self"
      using n by (simp add: n_def step_def)
    moreover have "representable (year_month_num (deployment_start_date self)
        + number_of_months_of_deployment self - number_of_months_in_between_deployments self)"
      using rl by (simp add: months algebra_simps flip: i\<^sub>d_def step_def)
    ultimately show ?thesis
      using generate_deployments_eq [OF fund(3) fund(7) fund(8)]
      by (simp add: deps_def amount_def n_def i\<^sub>d_def step_def)
  qed
  have deps_ne: "deps \<noteq> []" using n by (simp add: deps_def)
  have dep_key: "\<exists>k < nat n. dt = month_end_of (i\<^sub>d + int k * step)"
    if "(dt, v) \<in> set deps" for dt v
    using that by (auto simp: deps_def)
  have dep_valid: "valid_date dt \<and> representable (year_month_num dt + L)
      \<and> i\<^sub>f \<le> year_month_num dt + L \<and> year_month_num dt + L \<le> 119988"
    if "(dt, v) \<in> set deps" for dt v
  proof -
    from dep_key [OF that] obtain k where k: "k < nat n" "dt = month_end_of (i\<^sub>d + int k * step)"
      by blast
    from kstep [OF k(1)] ri last Lp fd
    have "representable (i\<^sub>d + int k * step)" "representable (i\<^sub>d + int k * step + L)"
      "i\<^sub>f \<le> i\<^sub>d + int k * step + L" "i\<^sub>d + int k * step + L \<le> 119988"
      by (simp_all add: representable_def)
    then show ?thesis by (simp add: k(2) valid_month_end_of)
  qed
  have dep_dist: "distinct (map (\<lambda>(dt, v). year_month_num dt) deps)"
  proof -
    have "map (\<lambda>(dt, v). year_month_num dt) deps = map (\<lambda>k. i\<^sub>d + int k * step) [0..<nat n]"
      by (simp add: deps_def comp_def)
    moreover have "inj (\<lambda>k. i\<^sub>d + int k * step)" using sp by (simp add: inj_def)
    ultimately show ?thesis by (simp add: distinct_map inj_on_def inj_def)
  qed
  define caps where "caps = map (\<lambda>(dt, v). (month_end_of (year_month_num dt + L), v)) deps"
  have caps: "generate_capital_returns self = Inr caps"
    unfolding generate_capital_returns_def deps sum.case caps_def L_def
    by (rule shifted_dict_eq [where f = "\<lambda>v. v"])
      (use dep_valid [unfolded L_def] dep_dist in simp_all)
  define pr where "pr = map (\<lambda>(dt, v). (month_end_of (year_month_num dt + L),
      npf_fv (irr_per_month self) L (- v))) deps"
  have pr: "generate_proceeds self = Inr pr"
    unfolding generate_proceeds_def deps sum.case pr_def L_def Let_def
    by (rule shifted_dict_eq [where f = "\<lambda>v. npf_fv (irr_per_month self)
          (length_of_deployment_in_months self) (- v)"])
      (use dep_valid [unfolded L_def] dep_dist in simp_all)
  have keys: "map fst pr = map fst caps"
    by (simp add: pr_def caps_def comp_def case_prod_beta)
  have profits: "\<exists>x. generate_profits self = Inr x"
  proof -
    have "\<exists>t. (case x of (dt, val) \<Rightarrow> \<lambda>profits.
        case map_of caps dt of None \<Rightarrow> Inl TypeError
        | Some capital_return \<Rightarrow>
            Inr (AList.update dt (py_sub val (PyFloat capital_return)) profits)) s = Inr t"
      if "x \<in> set pr" for x s
    proof -
      obtain dt val where x: "x = (dt, val)" by (cases x)
      with that have "dt \<in> set (map fst pr)" by force
      then have "dt \<in> fst ` set caps" by (simp add: keys)
      then obtain c where "map_of caps dt = Some c"
        by (metis map_of_eq_None_iff not_Some_eq)
      then show ?thesis by (simp add: x)
    qed
    from for_each_total [of pr _ "[]", OF this] show ?thesis
      by (simp add: generate_profits_def caps pr)
  qed
  have "map fst caps \<noteq> []" using deps_ne by (simp add: caps_def)
  from py_max_Inr [OF this] obtain b
    where b: "b \<in> set (map fst caps)" "py_max (map fst caps) = Inr b"
    by blast
  from b(1) obtain dt v where dtv: "(dt, v) \<in> set deps"
    and b_eq: "b = month_end_of (year_month_num dt + L)"
    by (auto simp: caps_def)
  define j where "j = year_month_num dt + L"
  have jb: "representable j" "i\<^sub>f \<le> j" "j \<le> 119988"
    using dep_valid [OF dtv] by (simp_all add: j_def)
  have vb: "valid_date b" "year_month_num b = j"
    using jb(1) by (simp_all add: b_eq valid_month_end_of j_def)
  define dates where "dates = map (\<lambda>k. month_end_of (i\<^sub>f + int k)) [0..<nat (j - i\<^sub>f + 1)]"
  have dates: "monthly_date_series self = Inr dates"
    using generate_monthly_date_series_eq [OF fund(2) vb(1)]
    by (simp add: monthly_date_series_def caps b(2) vb(2) dates_def i\<^sub>f_def)
  have dates_ne: "dates \<noteq> []" using jb(2) by (simp add: dates_def)
  have date_props: "valid_date x \<and> (\<exists>p. add_n_months x (- 1) True = Inr p)
      \<and> 1 \<le> year x \<and> year x \<le> 9998" if "x \<in> set dates" for x
  proof -
    from that obtain k where k: "k < nat (j - i\<^sub>f + 1)" "x = month_end_of (i\<^sub>f + int k)"
      by (auto simp: dates_def)
    from k(1) have range: "13 < i\<^sub>f + int k" "i\<^sub>f + int k \<le> 119988"
      using fd jb by simp_all
    then have r: "representable (i\<^sub>f + int k)" "representable (i\<^sub>f + int k - 1)"
      by (simp_all add: representable_def)
    have v: "valid_date x" using r(1) by (simp add: k(2) valid_month_end_of)
    have "add_n_months x (- 1) True = Inr (month_end_of (i\<^sub>f + int k - 1))"
      using v r(2) by (simp add: add_n_months_True end_of_month_from_int_eq k(2))
    moreover have "1 \<le> year x \<and> year x \<le> 9998"
      using ym_year_bounds [of "i\<^sub>f + int k"] range by (simp add: k(2) month_end_of_def)
    ultimately show ?thesis using v by blast
  qed
  have cic: "\<exists>x. generate_closing_invested_capital self = Inr x"
  proof -
    have "\<exists>t. closing_invested_capital_step deps caps x s = Inr t" if "x \<in> set dates" for x s
    proof -
      from date_props [OF that] obtain p where "add_n_months x (- 1) True = Inr p" by blast
      then show ?thesis by (simp add: closing_invested_capital_step_def Let_def)
    qed
    from for_each_total [of dates _ "[]", OF this] show ?thesis
      by (simp add: generate_closing_invested_capital_def deps caps dates)
  qed
  have "map fst deps \<noteq> []" using deps_ne by simp
  from py_max_Inr [OF this] obtain last_dep
    where last_dep: "py_max (map fst deps) = Inr last_dep"
    by blast
  have fee: "\<exists>x. generate_fee_paying_capital self = Inr x"
  proof -
    from cic obtain c where c: "generate_closing_invested_capital self = Inr c" by blast
    have "\<exists>t. for_each (\<lambda>dt fee_paying_capital.
               let capital =
                     (if date_le dt last_dep then committed_capital self
                      else dict_get c dt 0)
               in Inr (AList.update dt capital fee_paying_capital)) dates [] = Inr t"
      by (rule for_each_total) (simp add: Let_def)
    then show ?thesis
      by (simp add: generate_fee_paying_capital_def c deps last_dep dates)
  qed
  have mgmt: "\<exists>x. generate_mgmt_fees self = Inr x"
  proof -
    from cic obtain c where c: "generate_closing_invested_capital self = Inr c" by blast
    have "\<exists>t. for_each (\<lambda>dt mgmt_fees.
               let num_days_in_month = days_in_month dt
               in case days_in_year dt of
                    Inl e \<Rightarrow> Inl e
                  | Inr num_days_in_year \<Rightarrow>
                      let closing_invested_capital_balance = dict_get c dt 0
                      in if num_days_in_year = 0 then Inl ZeroDivisionError
                         else
                           let fee =
                                 (if date_le dt last_dep
                                  then committed_capital self * annual_mgmt_fee_rate self
                                         * of_int num_days_in_month / of_int num_days_in_year
                                  else closing_invested_capital_balance * annual_mgmt_fee_rate self
                                         * of_int num_days_in_month / of_int num_days_in_year)
                           in Inr (AList.update dt fee mgmt_fees)) dates [] = Inr t"
    proof (rule for_each_total)
      fix x s assume "x \<in> set dates"
      from date_props [OF this] have "1 \<le> year x" "year x \<le> 9998" by simp_all
      from days_in_year_Inr [OF this] obtain d where "days_in_year x = Inr d" "d \<noteq> 0" by blast
      then show "\<exists>t. (let num_days_in_month = days_in_month x
               in case days_in_year x of
                    Inl e \<Rightarrow> Inl e
                  | Inr num_days_in_year \<Rightarrow>
                      let closing_invested_capital_balance = dict_get c x 0
                      in if num_days_in_year = 0 then Inl ZeroDivisionError
                         else
                           let fee =
                                 (if date_le x last_dep
                                  then committed_capital self * annual_mgmt_fee_rate self
                                         * of_int num_days_in_month / of_int num_days_in_year
                                  else closing_invested_capital_balance * annual_mgmt_fee_rate self
                                         * of_int num_days_in_month / of_int num_days_in_year)
                           in Inr (AList.update x fee s)) = Inr t"
        by (simp add: Let_def)
    qed
    then show ?thesis
      by (simp add: generate_mgmt_fees_def c deps last_dep dates)
  qed
  have h: "comparable (irr_hurdle_per_month self)"
    using hurdle by (simp add: comparable_irr_hurdle_per_month)
  have numpy: "\<forall>k v. map_of pr k = Some v \<longrightarrow> comparable v"
  proof (intro allI impI)
    fix k v assume "map_of pr k = Some v"
    then have "(k, v) \<in> set pr" by (rule map_of_SomeD)
    then have "is_numpy v" by (auto simp: pr_def npf_fv_def)
    then show "comparable v" by (simp add: comparable_def)
  qed
  define Q where "Q = (\<lambda>s :: schedules. (\<forall>k v. map_of (lp_preferred_closing s) k = Some v \<longrightarrow> comparable v)
      \<and> (\<forall>k v. map_of (catch_up_closing s) k = Some v \<longrightarrow> comparable v))"
  have Q0: "Q empty_schedules" by (simp add: Q_def empty_schedules_def)
  have step_ok: "comparable (dict_get pr x (PyFloat 0))"
      "comparable (dict_get (lp_preferred_closing s) p (PyFloat 0))"
      "comparable (dict_get (catch_up_closing s) p (PyFloat 0))"
    if "Q s" for x p s
    using that numpy by (simp_all add: Q_def comparable_dict_get)
  have alloc: "if carry_percent self = 1 / 2
         then generate_proceeds_allocations_as_dict self = Inl ZeroDivisionError
         else \<exists>x. generate_proceeds_allocations_as_dict self = Inr x"
  proof (cases "carry_percent self = 1 / 2")
    case True
    from dates_ne obtain x rest where xs: "dates = x # rest" by (cases dates) auto
    from date_props [of x] xs obtain p where p: "add_n_months x (- 1) True = Inr p" by auto
    have "allocation_step self deps pr x empty_schedules = Inl ZeroDivisionError"
      by (rule allocation_step_total(1) [OF p h step_ok [OF Q0] True])
    then have "for_each (allocation_step self deps pr) dates empty_schedules = Inl ZeroDivisionError"
      by (simp add: xs)
    with True show ?thesis
      by (simp add: generate_proceeds_allocations_as_dict_def deps pr caps dates)
  next
    case False
    have "\<exists>t. for_each (allocation_step self deps pr) dates empty_schedules = Inr t \<and> Q t"
    proof (rule for_each_total_inv [where P = Q])
      show "Q empty_schedules" by (rule Q0)
    next
      fix x s assume x: "x \<in> set dates" and Qs: "Q s"
      from date_props [OF x] obtain p where p: "add_n_months x (- 1) True = Inr p" by blast
      from allocation_step_total(2) [OF p h step_ok [OF Qs] False]
      obtain t where t: "allocation_step self deps pr x s = Inr t" by blast
      from waterfall_row_comparable [OF allocation_step_row [OF t p] h step_ok [OF Qs]]
      obtain lc cc where lc: "map_of (lp_preferred_closing t) x = Some lc" "comparable lc"
        and cc: "map_of (catch_up_closing t) x = Some cc" "comparable cc"
        by blast
      have "Q t"
        unfolding Q_def
      proof (intro conjI allI impI)
        fix k v assume kv: "map_of (lp_preferred_closing t) k = Some v"
        show "comparable v"
        proof (cases "k = x")
          case True
          with kv lc show ?thesis by simp
        next
          case False
          from allocation_step_other(4) [OF t False] kv Qs show ?thesis by (simp add: Q_def)
        qed
      next
        fix k v assume kv: "map_of (catch_up_closing t) k = Some v"
        show "comparable v"
        proof (cases "k = x")
          case True
          with kv cc show ?thesis by simp
        next
          case False
          from allocation_step_other(9) [OF t False] kv Qs show ?thesis by (simp add: Q_def)
        qed
      qed
      with t show "\<exists>t. allocation_step self deps pr x s = Inr t \<and> Q t" by blast
    qed
    with False show ?thesis
      by (auto simp: generate_proceeds_allocations_as_dict_def deps pr caps dates)
  qed
  from deps pr caps profits dates cic fee mgmt alloc show ?thesis by blast
qed

theorem schedule_generation_total_witness:
  "(\<exists>x. generate_deployments small_fund = Inr x)
   \<and> (\<exists>x. generate_proceeds small_fund = Inr x)
   \<and> (\<exists>x. generate_capital_returns small_fund = Inr x)
   \<and> (\<exists>x. generate_profits small_fund = Inr x)
   \<and> (\<exists>x. monthly_date_series small_fund = Inr x)
   \<and> (\<exists>x. generate_closing_invested_capital small_fund = Inr x)
   \<and> (\<exists>x. generate_fee_paying_capital small_fund = Inr x)
   \<and> (\<exists>x. generate_mgmt_fees small_fund = Inr x)
   \<and> (\<exists>x. generate_proceeds_allocations_as_dict small_fund = Inr x)
   \<and> generate_proceeds_allocations_as_dict (small_fund\<lparr>carry_percent := 0.5\<rparr>)
       = Inl ZeroDivisionError"
proof -
  have h: "0 < number_of_months_in_between_deployments small_fund"
    "0 < number_of_months_of_deployment small_fund"
    "0 \<le> length_of_deployment_in_months small_fund"
    "13 < year_month_num (fund_start_date small_fund)"
    "year_month_num (deployment_start_date small_fund) + number_of_months_of_deployment small_fund
       - number_of_months_in_between_deployments small_fund
       + length_of_deployment_in_months small_fund \<le> 119988"
    "0 \<le> 1 + annual_effective_irr_hurdle small_fund"
    by (simp_all add: small_fund_fields year_month_num_def)
  let ?half = "small_fund\<lparr>carry_percent := 0.5\<rparr>"
  have i: "ClosedEndFund_init ?half = Inr ?half"
    by (simp add: small_fund_eval)
  have h': "0 < number_of_months_in_between_deployments ?half"
    "0 < number_of_months_of_deployment ?half"
    "0 \<le> length_of_deployment_in_months ?half"
    "13 < year_month_num (fund_start_date ?half)"
    "year_month_num (deployment_start_date ?half) + number_of_months_of_deployment ?half
       - number_of_months_in_between_deployments ?half
       + length_of_deployment_in_months ?half \<le> 119988"
    "0 \<le> 1 + annual_effective_irr_hurdle ?half"
    by (simp_all add: small_fund_fields year_month_num_def)
  have c: "carry_percent small_fund \<noteq> 1 / 2" "carry_percent ?half = 1 / 2"
    by (simp_all add: small_fund_fields)
  from schedule_generation_total [OF small_fund_init h] schedule_generation_total [OF i h'] c
  show ?thesis by simp
qed

end
